theory Spec2Isabelle
  imports Main "HOL-Library.Sublist"
begin

section \<open>Data model of the language-server client (lspService.mjs)\<close>

text \<open>
  JSON values as \<^verbatim>\<open>JSON.parse\<close> returns them. An object is the list of its own members
  (keys unique); \<^verbatim>\<open>undefined\<close> is the absence of a member and is written \<open>None\<close>.
\<close>

datatype json =
    JNull
  | JBool bool
  | JNum int
  | JStr string
  | JArr "json list"
  | JObj "(string \<times> json) list"

text \<open>Member access \<^verbatim>\<open>v.key\<close> on a value that is neither null nor undefined.\<close>

fun member :: "json \<Rightarrow> string \<Rightarrow> json option" where
  "member (JObj kvs) k = map_of kvs k"
| "member _ k = None"

text \<open>JavaScript truthiness of a value that may be undefined.\<close>

fun truthy :: "json option \<Rightarrow> bool" where
  "truthy None = False"
| "truthy (Some JNull) = False"
| "truthy (Some (JBool b)) = b"
| "truthy (Some (JNum n)) = (n \<noteq> 0)"
| "truthy (Some (JStr s)) = (s \<noteq> [])"
| "truthy (Some (JArr _)) = True"
| "truthy (Some (JObj _)) = True"

text \<open>
  The conditions with which a future of the client fails, and the exceptions its code
  raises. Each carries what the source interpolates into the message.
\<close>

datatype error =
    NotReady string                \<comment> \<open>sendRequest: not ready or process not running, for method\<close>
  | TimedOut string nat nat        \<comment> \<open>Request method (id) timed out after ms\<close>
  | LspError json                  \<comment> \<open>LSP Error: the remote's error member\<close>
  | ProcessNotRunning              \<comment> \<open>_initialize: LSP process not running\<close>
  | CouldNotBeInitialized          \<comment> \<open>ensureDocumentOpen: could not be initialized\<close>
  | NoLspConfigured string         \<comment> \<open>No LSP configured for file type of path\<close>
  | InvalidPath string             \<comment> \<open>getAbsolutePath refused the path\<close>
  | ReadFailed string              \<comment> \<open>fs.readFile rejected\<close>
  | WriteFailed string             \<comment> \<open>fs.writeFile rejected\<close>
  | TypeError                      \<comment> \<open>member access on null or undefined\<close>
  | URIError                       \<comment> \<open>decodeURIComponent refused the text\<close>

datatype outcome = Resolved "json option" | Rejected error

text \<open>The state of a promise of the client, and the ways an async call can stand.\<close>

datatype promise = Pending | Fulfilled | Failed error

datatype 'a completion =
    Returned 'a
  | Threw error
  | AwaitingInit            \<comment> \<open>parked at the await of initializationPromise\<close>
  | AwaitingRequest nat     \<comment> \<open>parked at the await of the future of this request id\<close>
  | AwaitingRead nat        \<comment> \<open>parked at the await of the file read with this handle\<close>

text \<open>
  What the client writes to the subprocess. The params objects are kept as the values the
  source builds; the \<^verbatim>\<open>uri\<close> member, which is \<^verbatim>\<open>_pathToUri\<close> of the absolute path, is
  represented by that absolute path.
\<close>

datatype params =
    InitializeParams
  | EmptyParams
  | NullParams
  | DidOpenParams string string nat string      \<comment> \<open>path, languageId, version, text\<close>
  | DidChangeParams string nat string           \<comment> \<open>path, version, full text\<close>
  | PositionParams string int int               \<comment> \<open>path, line, character\<close>
  | FormattingParams string                     \<comment> \<open>path\<close>

datatype wire =
    Request nat string params
  | Notification string params

record server_config =
  command :: string
  args :: "string list"
  supportedLanguageIds :: "string list"

text \<open>What the callback of a request's timer closes over.\<close>

record timer =
  t_method :: string
  t_timeoutMs :: nat

text \<open>
  An \<^verbatim>\<open>LspProcess\<close>. The first nine fields are the fields of the class (\<open>process\<close> is
  whether the handle is non-null; \<open>messageBuffer\<close> is a JavaScript string, a list of
  UTF-16 code units; an entry of \<open>pendingRequests\<close> holds the handle of the request's
  timer, and its \<^verbatim>\<open>resolve\<close> and \<^verbatim>\<open>reject\<close> are those of the future with the same id). The
  others are the world the object acts on: the frames written to the subprocess's
  standard input, the signals sent to it, the timers that are armed (by handle; the
  timer of request \<open>i\<close> has the handle \<open>i\<close>), the settled futures of \<^verbatim>\<open>sendRequest\<close>
  (by request id), and the file reads that calls of \<^verbatim>\<open>ensureDocumentOpen\<close> have begun and
  are parked at (by handle, each with the absolute path and the language identifier its
  call holds), with the handle of the next read.
\<close>

record client =
  config :: server_config
  process :: bool
  messageBuffer :: "nat list"
  pendingRequests :: "nat \<rightharpoonup> nat"
  requestIdCounter :: nat
  diagnostics :: "string \<rightharpoonup> json option"
  openDocuments :: "string \<rightharpoonup> nat"
  isInitialized :: bool
  initializationPromise :: promise
  stdin :: "wire list"
  signals :: "string list"
  timers :: "nat \<rightharpoonup> timer"
  settled :: "nat \<rightharpoonup> outcome"
  reads :: "nat \<rightharpoonup> string \<times> string"
  readCounter :: nat

text \<open>
  The functions of the platform that the client calls and this theory does not define:
  \<^verbatim>\<open>JSON.parse\<close> and \<^verbatim>\<open>decodeURIComponent\<close> (\<open>None\<close> when they throw), \<^verbatim>\<open>getAbsolutePath\<close> of
  fileUtils.mjs over \<^verbatim>\<open>path.resolve\<close> and \<^verbatim>\<open>path.normalize\<close> (\<open>None\<close> when it throws), whether
  \<^verbatim>\<open>process.platform\<close> is win32, and the file store behind \<^verbatim>\<open>fs.readFile\<close> (\<open>None\<close> when
  the read is rejected).
\<close>

record platform =
  JSON_parse :: "nat list \<Rightarrow> json option"
  decodeURIComponent :: "string \<Rightarrow> string option"
  getAbsolutePath :: "string \<Rightarrow> string option"
  win32 :: bool
  readFile :: "string \<Rightarrow> string option"

section \<open>The RPC correlator\<close>

text \<open>A promise settles once: a later resolve or reject of the same promise does nothing.\<close>

definition settle :: "nat \<Rightarrow> outcome \<Rightarrow> client \<Rightarrow> client" where
  "settle i out st =
     (if settled st i = None then st\<lparr>settled := (settled st)(i \<mapsto> out)\<rparr> else st)"

text \<open>
  \<^verbatim>\<open>sendRequest(method, params, timeoutMs)\<close>. The result is \<open>Inl e\<close> for the promise rejected
  at once, and \<open>Inr id\<close> for the promise that stays pending under the request id.
\<close>

definition sendRequest :: "string \<Rightarrow> params \<Rightarrow> nat \<Rightarrow> client \<Rightarrow> (error + nat) \<times> client" where
  "sendRequest method ps timeoutMs st =
     (if \<not> process st \<or> (\<not> isInitialized st \<and> method \<noteq> ''initialize'')
      then (Inl (NotReady method), st)
      else
        let i = requestIdCounter st in
        (Inr i,
         st\<lparr>requestIdCounter := i + 1,
            stdin := stdin st @ [Request i method ps],
            timers := (timers st)(i \<mapsto> \<lparr>t_method = method, t_timeoutMs = timeoutMs\<rparr>),
            pendingRequests := (pendingRequests st)(i \<mapsto> i)\<rparr>))"

text \<open>The callback of the timer that \<^verbatim>\<open>sendRequest\<close> arms; it runs only while armed.\<close>

definition onTimeout :: "nat \<Rightarrow> client \<Rightarrow> client" where
  "onTimeout i st =
     (case timers st i of
        None \<Rightarrow> st
      | Some t \<Rightarrow>
          settle i (Rejected (TimedOut (t_method t) i (t_timeoutMs t)))
            (st\<lparr>timers := (timers st)(i := None),
                pendingRequests := (pendingRequests st)(i := None)\<rparr>))"

definition sendNotification :: "string \<Rightarrow> params \<Rightarrow> client \<Rightarrow> client" where
  "sendNotification method ps st =
     (if \<not> process st \<or> (\<not> isInitialized st \<and> method \<noteq> ''initialized'')
      then st
      else st\<lparr>stdin := stdin st @ [Notification method ps]\<rparr>)"

text \<open>The handlers of the subprocess's \<^verbatim>\<open>exit\<close> and \<^verbatim>\<open>error\<close> events (\<^verbatim>\<open>_start\<close>).\<close>

definition onExit :: "client \<Rightarrow> client" where
  "onExit st = st\<lparr>isInitialized := False, process := False\<rparr>"

definition onError :: "client \<Rightarrow> client" where
  "onError st = st\<lparr>isInitialized := False, process := False\<rparr>"

text \<open>
  \<^verbatim>\<open>_uriToPath\<close>. The test \<^verbatim>\<open>fsPath.match(/^\/[A-Za-z]:/)\<close> is \<open>win_drive\<close>.
\<close>

definition is_alpha :: "char \<Rightarrow> bool" where
  "is_alpha c =
     ((65 \<le> (of_char c :: nat) \<and> (of_char c :: nat) \<le> 90) \<or>
      (97 \<le> (of_char c :: nat) \<and> (of_char c :: nat) \<le> 122))"

fun win_drive :: "string \<Rightarrow> bool" where
  "win_drive (a # b # c # _) = (a = CHR ''/'' \<and> is_alpha b \<and> c = CHR '':'')"
| "win_drive _ = False"

definition uriToPath :: "platform \<Rightarrow> string \<Rightarrow> error + string" where
  "uriToPath pf uri =
     (if \<not> prefix ''file:///'' uri then Inr uri
      else
        (case decodeURIComponent pf uri of
           None \<Rightarrow> Inl URIError
         | Some decodedUri \<Rightarrow>
             let fsPath = drop 8 decodedUri in
             if win32 pf \<and> win_drive fsPath then Inr (drop 1 fsPath) else Inr fsPath))"

text \<open>
  \<^verbatim>\<open>message.id !== undefined && this.pendingRequests.has(message.id)\<close>: the keys of the map
  are the numbers that \<^verbatim>\<open>sendRequest\<close> allocated, so only a numeric id can be a key. The
  result is the key when the test holds.
\<close>

fun pending_key :: "client \<Rightarrow> json option \<Rightarrow> nat option" where
  "pending_key st (Some (JNum n)) =
     (if 0 \<le> n \<and> pendingRequests st (nat n) \<noteq> None then Some (nat n) else None)"
| "pending_key st _ = None"

fun nullish :: "json option \<Rightarrow> bool" where
  "nullish None = True"
| "nullish (Some JNull) = True"
| "nullish _ = False"

text \<open>
  The branches of \<^verbatim>\<open>_handleMessage(message)\<close>: a response to the pending request \<open>i\<close>, and
  a publication of diagnostics. The second component of a result is the exception that
  leaves the function, if any (the caller, \<^verbatim>\<open>_handleData\<close>, catches and logs it). Writing
  to the log is not part of the state.
\<close>

definition handleResponse :: "json \<Rightarrow> nat \<Rightarrow> client \<Rightarrow> client" where
  "handleResponse message i st =
     (let st1 = (case pendingRequests st i of
                   Some timeout \<Rightarrow> st\<lparr>timers := (timers st)(timeout := None)\<rparr>
                 | None \<Rightarrow> st);
          st2 = (case member message ''error'' of
                   Some e \<Rightarrow>
                     if truthy (Some e) then settle i (Rejected (LspError e)) st1
                     else settle i (Resolved (member message ''result'')) st1
                 | None \<Rightarrow> settle i (Resolved (member message ''result'')) st1)
      in st2\<lparr>pendingRequests := (pendingRequests st2)(i := None)\<rparr>)"

definition handleDiagnostics :: "platform \<Rightarrow> json \<Rightarrow> client \<Rightarrow> client \<times> error option" where
  "handleDiagnostics pf message st =
     (case member message ''params'' of
        None \<Rightarrow> (st, Some TypeError)
      | Some ps \<Rightarrow>
          if ps = JNull then (st, Some TypeError)
          else
            (case member ps ''uri'' of
               Some (JStr uri) \<Rightarrow>
                 (case uriToPath pf uri of
                    Inl e \<Rightarrow> (st, Some e)
                  | Inr filePath \<Rightarrow>
                      (st\<lparr>diagnostics := (diagnostics st)(filePath \<mapsto> member ps ''diagnostics'')\<rparr>,
                       if nullish (member ps ''diagnostics'') then Some TypeError else None))
             | _ \<Rightarrow> (st, Some TypeError)))"

definition handleMessage :: "platform \<Rightarrow> json \<Rightarrow> client \<Rightarrow> client \<times> error option" where
  "handleMessage pf message st =
     (if message = JNull then (st, Some TypeError)
      else
        (case pending_key st (member message ''id'') of
           Some i \<Rightarrow> (handleResponse message i st, None)
         | None \<Rightarrow>
             if member message ''method'' = Some (JStr ''textDocument/publishDiagnostics'')
             then handleDiagnostics pf message st
             else if member message ''method'' = Some (JStr ''window/showMessage'')
             then (st, if nullish (member message ''params'') then Some TypeError else None)
             else if member message ''method'' = Some (JStr ''window/logMessage'')
             then (st, if nullish (member message ''params'') then Some TypeError else None)
             else (st, None)))"

section \<open>The stream framer\<close>

text \<open>
  \<^verbatim>\<open>data.toString()\<close> of a chunk (a Buffer) decodes the bytes of the chunk as UTF-8 into a
  JavaScript string: one code unit for a sequence of one, two or three bytes, a surrogate
  pair for a sequence of four, and U+FFFD where the bytes are no well-formed sequence
  (one for each maximal ill-formed part, as the WHATWG decoder does). Bytes are \<open>char\<close>,
  code units are \<open>nat\<close>.
\<close>

definition is_cont :: "nat \<Rightarrow> bool" where
  "is_cont b = (128 \<le> b \<and> b \<le> 191)"

text \<open>The range of the byte that may follow the lead byte \<open>b\<close> of a longer sequence.\<close>

definition second_ok :: "nat \<Rightarrow> nat \<Rightarrow> bool" where
  "second_ok b c =
     (if b = 224 then 160 \<le> c \<and> c \<le> 191
      else if b = 237 then 128 \<le> c \<and> c \<le> 159
      else if b = 240 then 144 \<le> c \<and> c \<le> 191
      else if b = 244 then 128 \<le> c \<and> c \<le> 143
      else is_cont c)"

text \<open>One step of the decoder on a non-empty input: the code units and the bytes consumed.\<close>

fun decode1 :: "nat list \<Rightarrow> nat list \<times> nat" where
  "decode1 [] = ([], 1)"
| "decode1 (b # bs) =
     (if b < 128 then ([b], 1)
      else if 194 \<le> b \<and> b \<le> 223 then
        (case bs of
           c # _ \<Rightarrow> if is_cont c then ([(b - 192) * 64 + (c - 128)], 2) else ([65533], 1)
         | [] \<Rightarrow> ([65533], 1))
      else if 224 \<le> b \<and> b \<le> 239 then
        (case bs of
           c # d # _ \<Rightarrow>
             if \<not> second_ok b c then ([65533], 1)
             else if \<not> is_cont d then ([65533], 2)
             else ([(b - 224) * 4096 + (c - 128) * 64 + (d - 128)], 3)
         | [c] \<Rightarrow> if second_ok b c then ([65533], 2) else ([65533], 1)
         | [] \<Rightarrow> ([65533], 1))
      else if 240 \<le> b \<and> b \<le> 244 then
        (case bs of
           c # d # e # _ \<Rightarrow>
             if \<not> second_ok b c then ([65533], 1)
             else if \<not> is_cont d then ([65533], 2)
             else if \<not> is_cont e then ([65533], 3)
             else
               let cp = (b - 240) * 262144 + (c - 128) * 4096 + (d - 128) * 64 + (e - 128) - 65536
               in ([55296 + cp div 1024, 56320 + cp mod 1024], 4)
         | [c, d] \<Rightarrow>
             if \<not> second_ok b c then ([65533], 1)
             else if \<not> is_cont d then ([65533], 2)
             else ([65533], 3)
         | [c] \<Rightarrow> if second_ok b c then ([65533], 2) else ([65533], 1)
         | [] \<Rightarrow> ([65533], 1))
      else ([65533], 1))"

lemma decode1_pos: "0 < snd (decode1 bs)"
  by (cases bs) (auto simp: Let_def split: list.splits)

function utf8_decode :: "nat list \<Rightarrow> nat list" where
  "utf8_decode bs =
     (if bs = [] then []
      else fst (decode1 bs) @ utf8_decode (drop (snd (decode1 bs)) bs))"
  by pat_completeness auto
termination
proof (relation "measure length")
  show "wf (measure length)" by simp
next
  fix bs :: "nat list"
  assume "bs \<noteq> []"
  moreover have "0 < snd (decode1 bs)" by (rule decode1_pos)
  ultimately show "(drop (snd (decode1 bs)) bs, bs) \<in> measure length" by simp
qed

declare utf8_decode.simps [simp del]

definition toString :: "string \<Rightarrow> nat list" where
  "toString data = utf8_decode (map of_char data)"

text \<open>
  The regular expression \<^verbatim>\<open>/Content-Length: (\d+)\r\n\r\n/\<close>. \<open>match_here\<close> is a match that
  starts at the first code unit: the length of \<^verbatim>\<open>match[0]\<close> and the digits \<^verbatim>\<open>match[1]\<close>
  (the digits are matched greedily, and a shorter run cannot be followed by a carriage
  return). \<open>regex_match\<close> is \<^verbatim>\<open>String.prototype.match\<close>: the leftmost match in the string.
\<close>

definition header_name :: "nat list" where
  "header_name = map of_char ''Content-Length: ''"

definition crlf2 :: "nat list" where
  "crlf2 = [13, 10, 13, 10]"

definition is_digit :: "nat \<Rightarrow> bool" where
  "is_digit c = (48 \<le> c \<and> c \<le> 57)"

definition match_here :: "nat list \<Rightarrow> (nat \<times> nat list) option" where
  "match_here s =
     (if prefix header_name s then
        let r = drop (length header_name) s;
            ds = takeWhile is_digit r
        in if ds \<noteq> [] \<and> prefix crlf2 (drop (length ds) r)
           then Some (length header_name + length ds + length crlf2, ds)
           else None
      else None)"

fun regex_match :: "nat list \<Rightarrow> (nat \<times> nat list) option" where
  "regex_match [] = None"
| "regex_match (c # cs) =
     (case match_here (c # cs) of
        Some m \<Rightarrow> Some m
      | None \<Rightarrow> regex_match cs)"

text \<open>\<^verbatim>\<open>parseInt(digits, 10)\<close> on a string of decimal digits (exact below \<open>2 ^ 53\<close>).\<close>

definition parseInt :: "nat list \<Rightarrow> nat" where
  "parseInt ds = foldl (\<lambda>n d. 10 * n + (d - 48)) 0 ds"

text \<open>
  \<^verbatim>\<open>s.substring(a, b)\<close> and \<^verbatim>\<open>s.substring(a)\<close>: the arguments are swapped when \<open>b < a\<close>, and
  indices past the end are clamped.
\<close>

definition substring :: "nat \<Rightarrow> nat \<Rightarrow> 'a list \<Rightarrow> 'a list" where
  "substring a b s = take (max a b - min a b) (drop (min a b) s)"

definition substring_from :: "nat \<Rightarrow> 'a list \<Rightarrow> 'a list" where
  "substring_from a s = drop a s"

lemma match_here_pos: "match_here s = Some (n, ds) \<Longrightarrow> 0 < n"
  by (auto simp: match_here_def Let_def crlf2_def split: if_splits)

lemma regex_match_pos: "regex_match s = Some (n, ds) \<Longrightarrow> 0 < n"
  by (induction s) (auto split: option.splits dest: match_here_pos)

text \<open>
  The loop of \<^verbatim>\<open>_handleData\<close> on the buffer: the payloads \<^verbatim>\<open>messageJson\<close> it cuts out, in
  order, and the buffer it leaves. Handling a payload does not touch the buffer, so the
  payloads are handled after the loop in \<open>handleData\<close>.
\<close>

function handleData_loop :: "nat list \<Rightarrow> nat list list \<times> nat list" where
  "handleData_loop buf =
     (case regex_match buf of
        None \<Rightarrow> ([], buf)
      | Some (headerLength, digits) \<Rightarrow>
          let contentLength = parseInt digits;
              messageStartIndex = headerLength;
              messageEndIndex = messageStartIndex + contentLength
          in if length buf < messageEndIndex then ([], buf)
             else
               (substring messageStartIndex messageEndIndex buf #
                  fst (handleData_loop (substring_from messageEndIndex buf)),
                snd (handleData_loop (substring_from messageEndIndex buf))))"
  by pat_completeness auto
termination
  apply (relation "measure length")
   apply simp
  apply (auto simp: substring_from_def dest!: regex_match_pos)
  done

declare handleData_loop.simps [simp del]

text \<open>One payload: \<^verbatim>\<open>JSON.parse\<close>, then \<^verbatim>\<open>_handleMessage\<close>; every exception is caught and logged.\<close>

definition dispatch :: "platform \<Rightarrow> client \<Rightarrow> nat list \<Rightarrow> client" where
  "dispatch pf st messageJson =
     (case JSON_parse pf messageJson of
        None \<Rightarrow> st
      | Some message \<Rightarrow> fst (handleMessage pf message st))"

definition handleData :: "platform \<Rightarrow> string \<Rightarrow> client \<Rightarrow> client" where
  "handleData pf data st =
     (let buf = messageBuffer st @ toString data in
      foldl (dispatch pf) (st\<lparr>messageBuffer := snd (handleData_loop buf)\<rparr>) (fst (handleData_loop buf)))"

text \<open>
  The framer alone, over a sequence of chunks: the payloads cut out so far and the
  buffer, as \<^verbatim>\<open>_handleData\<close> leaves them after each chunk.
\<close>

fun feed :: "nat list list \<times> nat list \<Rightarrow> string list \<Rightarrow> nat list list \<times> nat list" where
  "feed (out, buf) [] = (out, buf)"
| "feed (out, buf) (data # chunks) =
     feed (out @ fst (handleData_loop (buf @ toString data)), snd (handleData_loop (buf @ toString data))) chunks"

text \<open>
  The frame that \<^verbatim>\<open>sendRequest\<close> and \<^verbatim>\<open>sendNotification\<close> put around the encoded text of a
  message: the header carries \<^verbatim>\<open>Buffer.byteLength(messageStr, 'utf-8')\<close>, the number of
  bytes, in decimal.
\<close>

function decimal :: "nat \<Rightarrow> string" where
  "decimal n = (if n < 10 then [char_of (48 + n)] else decimal (n div 10) @ [char_of (48 + n mod 10)])"
  by pat_completeness auto
termination
  by (relation "measure id") auto

declare decimal.simps [simp del]

definition frame :: "string \<Rightarrow> string" where
  "frame messageBytes =
     ''Content-Length: '' @ decimal (length messageBytes) @
     [CHR 0x0D, CHR 0x0A, CHR 0x0D, CHR 0x0A] @ messageBytes"

text \<open>The same frame as code units, around a payload of code units.\<close>

definition frame_units :: "nat list \<Rightarrow> nat list" where
  "frame_units p = header_name @ map of_char (decimal (length p)) @ crlf2 @ p"

section \<open>The process client: handshake, documents, shutdown\<close>

text \<open>
  \<^verbatim>\<open>_initialize\<close> up to its await, and from its await on. The second runs when the future
  of the initialize request (id \<open>i\<close>) has settled.
\<close>

definition initialize_start :: "client \<Rightarrow> client" where
  "initialize_start st =
     (if \<not> process st then st\<lparr>initializationPromise := Failed ProcessNotRunning\<rparr>
      else
        (case sendRequest ''initialize'' InitializeParams 15000 st of
           (Inl e, st1) \<Rightarrow> st1\<lparr>isInitialized := False, initializationPromise := Failed e\<rparr>
         | (Inr i, st1) \<Rightarrow> st1\<lparr>initializationPromise := Pending\<rparr>))"

text \<open>\<^verbatim>\<open>Object.keys(result.capabilities)\<close> throws unless both are neither null nor undefined.\<close>

fun has_capabilities :: "json option \<Rightarrow> bool" where
  "has_capabilities None = False"
| "has_capabilities (Some r) = (r \<noteq> JNull \<and> \<not> nullish (member r ''capabilities''))"

definition initialize_resume :: "nat \<Rightarrow> client \<Rightarrow> client" where
  "initialize_resume i st =
     (if initializationPromise st \<noteq> Pending then st
      else
        (case settled st i of
           None \<Rightarrow> st
         | Some (Rejected e) \<Rightarrow> st\<lparr>isInitialized := False, initializationPromise := Failed e\<rparr>
         | Some (Resolved result) \<Rightarrow>
             if has_capabilities result
             then (sendNotification ''initialized'' EmptyParams st)
                    \<lparr>isInitialized := True, initializationPromise := Fulfilled\<rparr>
             else st\<lparr>isInitialized := False, initializationPromise := Failed TypeError\<rparr>))"

text \<open>The constructor, with \<^verbatim>\<open>_start\<close>: the subprocess is spawned and the handshake begins.\<close>

definition newLspProcess :: "server_config \<Rightarrow> client" where
  "newLspProcess lspConfig =
     initialize_start
       \<lparr>config = lspConfig, process = True, messageBuffer = [],
        pendingRequests = Map.empty, requestIdCounter = 1, diagnostics = Map.empty,
        openDocuments = Map.empty, isInitialized = False, initializationPromise = Pending,
        stdin = [], signals = [], timers = Map.empty, settled = Map.empty,
        reads = Map.empty, readCounter = 1\<rparr>"

text \<open>The language identifier that \<^verbatim>\<open>ensureDocumentOpen\<close> picks for a path.\<close>

definition languageIdFor :: "server_config \<Rightarrow> string \<Rightarrow> string" where
  "languageIdFor cfg absolutePath =
     (case find
        (\<lambda>langId.
           (langId = ''vue'' \<and> suffix ''.vue'' absolutePath) \<or>
           ((langId = ''javascript'' \<or> langId = ''typescript'') \<and>
              (suffix ''.js'' absolutePath \<or> suffix ''.ts'' absolutePath)) \<or>
           ((langId = ''javascriptreact'' \<or> langId = ''typescriptreact'') \<and>
              (suffix ''.jsx'' absolutePath \<or> suffix ''.tsx'' absolutePath)))
        (supportedLanguageIds cfg) of
        Some langId \<Rightarrow> langId
      | None \<Rightarrow> if suffix ''.vue'' absolutePath then ''vue'' else ''typescript'')"

text \<open>
  \<^verbatim>\<open>ensureDocumentOpen(relativeFilePath)\<close>, in three parts. \<open>ensureDocumentOpen\<close> is its first
  line; \<open>ensureDocumentOpen_resume\<close> is the function from its second line up to the await of
  \<^verbatim>\<open>fs.readFile\<close>, where the call parks with the read it has begun when the path is not in
  \<^verbatim>\<open>openDocuments\<close>; \<open>ensureDocumentOpen_read\<close> is the function from that await on, with the
  absolute path and the language identifier the call holds and the outcome of the read
  (\<open>None\<close> when it is rejected).
\<close>

definition ensureDocumentOpen_resume :: "platform \<Rightarrow> string \<Rightarrow> client \<Rightarrow> string completion \<times> client" where
  "ensureDocumentOpen_resume pf relativeFilePath st =
     (if \<not> isInitialized st then (Threw CouldNotBeInitialized, st)
      else
        (case getAbsolutePath pf relativeFilePath of
           None \<Rightarrow> (Threw (InvalidPath relativeFilePath), st)
         | Some absolutePath \<Rightarrow>
             let languageId = languageIdFor (config st) absolutePath in
             if openDocuments st absolutePath = None then
               let k = readCounter st in
               (AwaitingRead k,
                st\<lparr>readCounter := k + 1, reads := (reads st)(k \<mapsto> (absolutePath, languageId))\<rparr>)
             else (Returned absolutePath, st)))"

definition ensureDocumentOpen_read ::
  "string \<Rightarrow> string \<Rightarrow> string option \<Rightarrow> client \<Rightarrow> string completion \<times> client" where
  "ensureDocumentOpen_read absolutePath languageId fileText st =
     (case fileText of
        None \<Rightarrow> (Threw (ReadFailed absolutePath), st)
      | Some content \<Rightarrow>
          let version = 1;
              st1 = sendNotification ''textDocument/didOpen''
                      (DidOpenParams absolutePath languageId version content) st
          in (Returned absolutePath,
              st1\<lparr>openDocuments := (openDocuments st1)(absolutePath \<mapsto> version)\<rparr>))"

definition ensureDocumentOpen :: "platform \<Rightarrow> string \<Rightarrow> client \<Rightarrow> string completion \<times> client" where
  "ensureDocumentOpen pf relativeFilePath st =
     (if \<not> isInitialized st then
        (case initializationPromise st of
           Pending \<Rightarrow> (AwaitingInit, st)
         | Failed e \<Rightarrow> (Threw e, st)
         | Fulfilled \<Rightarrow> ensureDocumentOpen_resume pf relativeFilePath st)
      else ensureDocumentOpen_resume pf relativeFilePath st)"

definition getDiagnosticsForFile :: "client \<Rightarrow> string \<Rightarrow> json" where
  "getDiagnosticsForFile st absoluteFilePath =
     (case diagnostics st absoluteFilePath of
        Some (Some d) \<Rightarrow> if truthy (Some d) then d else JArr []
      | _ \<Rightarrow> JArr [])"

text \<open>
  The push of a change at the end of \<^verbatim>\<open>formatDocument\<close>: the stored version is bumped and
  the change notification carries the new version and the whole text.
\<close>

definition notifyChanged :: "string \<Rightarrow> string \<Rightarrow> client \<Rightarrow> client" where
  "notifyChanged absolutePath newContent st =
     (let currentVersion = (case openDocuments st absolutePath of
                              Some v \<Rightarrow> if v = 0 then 1 else v
                            | None \<Rightarrow> 1);
          newVersion = currentVersion + 1;
          st1 = st\<lparr>openDocuments := (openDocuments st)(absolutePath \<mapsto> newVersion)\<rparr>
      in sendNotification ''textDocument/didChange''
           (DidChangeParams absolutePath newVersion newContent) st1)"

text \<open>
  \<^verbatim>\<open>close()\<close>: up to the await of the shutdown request, the \<^verbatim>\<open>finally\<close> block, and the
  continuation once the future of the shutdown request (id \<open>i\<close>) has settled; a rejection
  of that future is caught and logged.
\<close>

definition close_finally :: "client \<Rightarrow> unit completion \<times> client" where
  "close_finally st =
     (let st1 = sendNotification ''exit'' NullParams st in
      if \<not> process st1 then (Threw TypeError, st1)
      else (Returned (),
            st1\<lparr>signals := signals st1 @ [''SIGTERM''], isInitialized := False, process := False\<rparr>))"

definition close_start :: "client \<Rightarrow> unit completion \<times> client" where
  "close_start st =
     (if process st then
        (if isInitialized st then
           (case sendRequest ''shutdown'' NullParams 2000 st of
              (Inl e, st1) \<Rightarrow> close_finally st1
            | (Inr i, st1) \<Rightarrow> (AwaitingRequest i, st1))
         else close_finally st)
      else (Returned (), st))"

definition close_resume :: "nat \<Rightarrow> client \<Rightarrow> unit completion \<times> client" where
  "close_resume i st =
     (if settled st i = None then (AwaitingRequest i, st) else close_finally st)"

section \<open>Events of a client's life\<close>

text \<open>
  What can happen to one client, one event-loop task at a time: the subprocess exits or
  its pipe reports an error; a timer fires; a chunk arrives on standard output; the
  handshake continues; a caller sends a request; a call of \<^verbatim>\<open>ensureDocumentOpen\<close> for a
  path begins and runs until it returns, throws or parks; the file read of a parked call
  settles (with the content the file has then, or rejected) and that call runs to its
  end; \<^verbatim>\<open>formatDocument\<close> pushes a change for a path that its own \<^verbatim>\<open>ensureDocumentOpen\<close> has
  returned; \<^verbatim>\<open>close\<close> starts or continues. Between the begin of a call and the settling of
  its read, anything else can happen, also the begin of another call for the same path.
\<close>

datatype event =
    Exit
  | ProcessError
  | TimerFires nat
  | Data string
  | InitializeResumes nat
  | CallerRequest string params nat
  | EnsureOpen string
  | ReadSettles nat "string option"
  | PushChange string string
  | CloseStarts
  | CloseResumes nat

fun step :: "platform \<Rightarrow> client \<Rightarrow> event \<Rightarrow> client" where
  "step pf st Exit = onExit st"
| "step pf st ProcessError = onError st"
| "step pf st (TimerFires i) = onTimeout i st"
| "step pf st (Data chunk) = handleData pf chunk st"
| "step pf st (InitializeResumes i) = initialize_resume i st"
| "step pf st (CallerRequest method ps timeoutMs) = snd (sendRequest method ps timeoutMs st)"
| "step pf st (EnsureOpen relativeFilePath) = snd (ensureDocumentOpen pf relativeFilePath st)"
| "step pf st (ReadSettles k fileText) =
     (case reads st k of
        None \<Rightarrow> st
      | Some (absolutePath, languageId) \<Rightarrow>
          snd (ensureDocumentOpen_read absolutePath languageId fileText
                 (st\<lparr>reads := (reads st)(k := None)\<rparr>)))"
| "step pf st (PushChange absolutePath newContent) =
     (if openDocuments st absolutePath = None then st
      else notifyChanged absolutePath newContent st)"
| "step pf st CloseStarts = snd (close_start st)"
| "step pf st (CloseResumes i) = snd (close_resume i st)"

definition run :: "platform \<Rightarrow> event list \<Rightarrow> client \<Rightarrow> client" where
  "run pf evs st = foldl (step pf) st evs"

text \<open>
  \<^verbatim>\<open>close()\<close> as one call: \<open>during\<close> is what happens to the client while the call is parked
  at the await of the shutdown request.
\<close>

definition close :: "platform \<Rightarrow> event list \<Rightarrow> client \<Rightarrow> unit completion \<times> client" where
  "close pf during st =
     (case close_start st of
        (AwaitingRequest i, st1) \<Rightarrow> close_resume i (run pf during st1)
      | r \<Rightarrow> r)"

section \<open>The edit applier (formatDocument)\<close>

text \<open>
  A text edit as \<^verbatim>\<open>formatDocument\<close> reads it: \<^verbatim>\<open>range.start.line\<close>, \<^verbatim>\<open>range.start.character\<close>,
  \<^verbatim>\<open>range.end.line\<close>, \<^verbatim>\<open>range.end.character\<close> and \<^verbatim>\<open>newText\<close>.
\<close>

record edit =
  startLine :: nat
  startChar :: nat
  endLine :: nat
  endChar :: nat
  newText :: string

text \<open>The comparator given to \<^verbatim>\<open>edits.sort\<close>: later start positions first.\<close>

definition compareEdits :: "edit \<Rightarrow> edit \<Rightarrow> int" where
  "compareEdits a b =
     (if int (startLine b) - int (startLine a) \<noteq> 0
      then int (startLine b) - int (startLine a)
      else int (startChar b) - int (startChar a))"

text \<open>
  \<^verbatim>\<open>Array.prototype.sort\<close> with a comparator: a stable sort, here by insertion (an element
  goes before the first element that it does not have to follow).
\<close>

fun insert_sorted :: "('a \<Rightarrow> 'a \<Rightarrow> int) \<Rightarrow> 'a \<Rightarrow> 'a list \<Rightarrow> 'a list" where
  "insert_sorted cmp x [] = [x]"
| "insert_sorted cmp x (y # ys) =
     (if cmp x y \<le> 0 then x # y # ys else y # insert_sorted cmp x ys)"

definition array_sort :: "('a \<Rightarrow> 'a \<Rightarrow> int) \<Rightarrow> 'a list \<Rightarrow> 'a list" where
  "array_sort cmp xs = foldr (insert_sorted cmp) xs []"

text \<open>\<^verbatim>\<open>s.split('\n')\<close> and \<^verbatim>\<open>lines.join('\n')\<close>.\<close>

fun split_lines :: "string \<Rightarrow> string list" where
  "split_lines [] = [[]]"
| "split_lines (c # cs) =
     (if c = CHR 0x0A then [] # split_lines cs
      else (case split_lines cs of
              l # ls \<Rightarrow> (c # l) # ls
            | [] \<Rightarrow> [[c]]))"

fun join_lines :: "string list \<Rightarrow> string" where
  "join_lines [] = []"
| "join_lines [l] = l"
| "join_lines (l # ls) = l @ CHR 0x0A # join_lines ls"

text \<open>\<^verbatim>\<open>lines.splice(start, deleteCount, ...items)\<close> for \<open>start\<close> within the array.\<close>

definition splice :: "nat \<Rightarrow> int \<Rightarrow> 'a list \<Rightarrow> 'a list \<Rightarrow> 'a list" where
  "splice start deleteCount items xs =
     take start xs @ items @ drop (start + nat (max 0 deleteCount)) xs"

text \<open>
  The body of the loop over the sorted edits. Reading a line that the array does not have
  gives \<^verbatim>\<open>undefined\<close>, and \<^verbatim>\<open>substring\<close> of it throws.
\<close>

definition applyEdit :: "edit \<Rightarrow> string list \<Rightarrow> error + string list" where
  "applyEdit e lines =
     (if startLine e = endLine e then
        (if length lines \<le> startLine e then Inl TypeError
         else
           let pre = substring 0 (startChar e) (lines ! startLine e);
               suf = substring_from (endChar e) (lines ! startLine e)
           in Inr (lines[startLine e := pre @ newText e @ suf]))
      else
        (if length lines \<le> startLine e \<or> length lines \<le> endLine e then Inl TypeError
         else
           let firstLinePrefix = substring 0 (startChar e) (lines ! startLine e);
               lastLineSuffix = substring_from (endChar e) (lines ! endLine e);
               middleLines = split_lines (newText e);
               deleteCount = int (endLine e) - int (startLine e) + 1
           in if length middleLines = 1 then
                Inr (splice (startLine e) deleteCount
                       [firstLinePrefix @ hd middleLines @ lastLineSuffix] lines)
              else
                Inr (splice (startLine e) deleteCount
                       ([firstLinePrefix @ hd middleLines] @
                        take (length middleLines - 2) (drop 1 middleLines) @
                        [last middleLines @ lastLineSuffix]) lines)))"

fun applyInOrder :: "edit list \<Rightarrow> string list \<Rightarrow> error + string list" where
  "applyInOrder [] lines = Inr lines"
| "applyInOrder (e # es) lines =
     (case applyEdit e lines of
        Inl err \<Rightarrow> Inl err
      | Inr lines' \<Rightarrow> applyInOrder es lines')"

text \<open>The edit applier: sort, split, apply back to front, join.\<close>

definition applyEdits :: "edit list \<Rightarrow> string \<Rightarrow> error + string" where
  "applyEdits edits content =
     (case applyInOrder (array_sort compareEdits edits) (split_lines content) of
        Inl err \<Rightarrow> Inl err
      | Inr lines \<Rightarrow> Inr (join_lines lines))"

text \<open>Applying edits in the order given, with no sort.\<close>

definition applyUnsorted :: "edit list \<Rightarrow> string \<Rightarrow> error + string" where
  "applyUnsorted edits content =
     (case applyInOrder edits (split_lines content) of
        Inl err \<Rightarrow> Inl err
      | Inr lines \<Rightarrow> Inr (join_lines lines))"

datatype format_result = Applied string | NotApplied

text \<open>
  \<^verbatim>\<open>formatDocument\<close> from the reply of the formatting request on: \<open>edits\<close> is the reply
  (\<open>None\<close> for null), \<open>fileText\<close> the outcome of reading the file, \<open>written\<close> whether
  writing it back succeeded. Up to the push of the change at its end this part neither
  reads nor changes the client, so \<open>st\<close> is the client at the moment of the push.
\<close>

definition formatDocument_resume ::
  "string \<Rightarrow> edit list option \<Rightarrow> string option \<Rightarrow> bool \<Rightarrow> client \<Rightarrow> format_result completion \<times> client" where
  "formatDocument_resume absolutePath edits fileText written st =
     (case edits of
        None \<Rightarrow> (Returned NotApplied, st)
      | Some es \<Rightarrow>
          if es = [] then (Returned NotApplied, st)
          else
            (case fileText of
               None \<Rightarrow> (Threw (ReadFailed absolutePath), st)
             | Some content \<Rightarrow>
                 (case applyEdits es content of
                    Inl err \<Rightarrow> (Threw err, st)
                  | Inr newContent \<Rightarrow>
                      if \<not> written then (Threw (WriteFailed absolutePath), st)
                      else (Returned (Applied newContent),
                            notifyChanged absolutePath newContent st))))"

section \<open>The client router (LspService)\<close>

text \<open>
  \<^verbatim>\<open>path.extname\<close> of the platform, in its POSIX form: the part of the last path component
  from its last dot on; empty when that component has no dot, starts with its only dot,
  or is \<^verbatim>\<open>..\<close>. Trailing separators are skipped.
\<close>

definition extname :: "string \<Rightarrow> string" where
  "extname p =
     (let trimmed = rev (dropWhile (\<lambda>c. c = CHR ''/'') (rev p));
          base = rev (takeWhile (\<lambda>c. c \<noteq> CHR ''/'') (rev trimmed));
          after = rev (takeWhile (\<lambda>c. c \<noteq> CHR ''.'') (rev base))
      in if CHR ''.'' \<notin> set base then []
         else if length base = length after + 1 then []
         else if base = ''..'' then []
         else CHR ''.'' # after)"

text \<open>The table \<^verbatim>\<open>lspServers\<close>.\<close>

definition typescriptServer :: server_config where
  "typescriptServer =
     \<lparr>command = ''typescript-language-server'',
      args = [''--stdio''],
      supportedLanguageIds =
        [''javascript'', ''typescript'', ''javascriptreact'', ''typescriptreact'']\<rparr>"

definition lspServers :: "(string \<times> server_config) list" where
  "lspServers = [(''typescript'', typescriptServer)]"

text \<open>
  An \<^verbatim>\<open>LspService\<close> is its map \<^verbatim>\<open>lspInstances\<close>, in insertion order. The constructor makes
  one client for each entry of the table.
\<close>

type_synonym service = "(string \<times> client) list"

definition initializeInstances :: "(string \<times> server_config) list \<Rightarrow> service" where
  "initializeInstances servers = map (\<lambda>(key, cfg). (key, newLspProcess cfg)) servers"

definition newLspService :: service where
  "newLspService = initializeInstances lspServers"

text \<open>
  \<^verbatim>\<open>_getLspInstanceForFile\<close>: the key it looks up, and the lookup (\<open>None\<close> is \<^verbatim>\<open>undefined\<close>).
\<close>

definition lspKeyForFile :: "string \<Rightarrow> string" where
  "lspKeyForFile filePath =
     (let ext = extname filePath in
      if ext = ''.vue'' then ''vue''
      else if ext \<in> set [''.ts'', ''.tsx'', ''.js'', ''.jsx''] then ''typescript''
      else ''typescript'')"

definition getLspInstanceForFile :: "service \<Rightarrow> string \<Rightarrow> client option" where
  "getLspInstanceForFile svc filePath = map_of svc (lspKeyForFile filePath)"

definition store :: "service \<Rightarrow> string \<Rightarrow> client \<Rightarrow> service" where
  "store svc key st = map (\<lambda>(k, c). if k = key then (k, st) else (k, c)) svc"

text \<open>
  The public operations, each up to the first await that parks it. Each begins with the
  lookup and its guard; what it then does with the client it has found is the function
  with the suffix \<open>_on\<close>: \<^verbatim>\<open>ensureDocumentOpen\<close>, and the request on the path that call
  returns. \<^verbatim>\<open>getDiagnostics\<close> returns the absolute path under which it reads the cache
  after its delay; the others are parked (at the handshake, at the file read, or at the
  future of their request), or have failed.
\<close>

definition getDiagnostics :: "platform \<Rightarrow> string \<Rightarrow> service \<Rightarrow> string completion \<times> service" where
  "getDiagnostics pf relativeFilePath svc =
     (case getLspInstanceForFile svc relativeFilePath of
        None \<Rightarrow> (Threw (NoLspConfigured relativeFilePath), svc)
      | Some lsp \<Rightarrow>
          (case ensureDocumentOpen pf relativeFilePath lsp of
             (r, lsp1) \<Rightarrow> (r, store svc (lspKeyForFile relativeFilePath) lsp1)))"

definition getCompletions_on ::
  "platform \<Rightarrow> string \<Rightarrow> int \<Rightarrow> int \<Rightarrow> client \<Rightarrow> unit completion \<times> client" where
  "getCompletions_on pf relativeFilePath l c lsp =
     (case ensureDocumentOpen pf relativeFilePath lsp of
        (Returned absolutePath, lsp1) \<Rightarrow>
          (case sendRequest ''textDocument/completion''
                  (PositionParams absolutePath l c) 5000 lsp1 of
             (Inl e, lsp2) \<Rightarrow> (Threw e, lsp2)
           | (Inr i, lsp2) \<Rightarrow> (AwaitingRequest i, lsp2))
      | (Threw e, lsp1) \<Rightarrow> (Threw e, lsp1)
      | (AwaitingInit, lsp1) \<Rightarrow> (AwaitingInit, lsp1)
      | (AwaitingRequest i, lsp1) \<Rightarrow> (AwaitingRequest i, lsp1)
      | (AwaitingRead k, lsp1) \<Rightarrow> (AwaitingRead k, lsp1))"

definition getCompletions ::
  "platform \<Rightarrow> string \<Rightarrow> int \<Rightarrow> int \<Rightarrow> service \<Rightarrow> unit completion \<times> service" where
  "getCompletions pf relativeFilePath l c svc =
     (case getLspInstanceForFile svc relativeFilePath of
        None \<Rightarrow> (Threw (NoLspConfigured relativeFilePath), svc)
      | Some lsp \<Rightarrow>
          (case getCompletions_on pf relativeFilePath l c lsp of
             (r, lsp1) \<Rightarrow> (r, store svc (lspKeyForFile relativeFilePath) lsp1)))"

definition findDefinition_on ::
  "platform \<Rightarrow> string \<Rightarrow> int \<Rightarrow> int \<Rightarrow> client \<Rightarrow> unit completion \<times> client" where
  "findDefinition_on pf relativeFilePath l c lsp =
     (case ensureDocumentOpen pf relativeFilePath lsp of
        (Returned absolutePath, lsp1) \<Rightarrow>
          (case sendRequest ''textDocument/definition''
                  (PositionParams absolutePath l c) 5000 lsp1 of
             (Inl e, lsp2) \<Rightarrow> (Threw e, lsp2)
           | (Inr i, lsp2) \<Rightarrow> (AwaitingRequest i, lsp2))
      | (Threw e, lsp1) \<Rightarrow> (Threw e, lsp1)
      | (AwaitingInit, lsp1) \<Rightarrow> (AwaitingInit, lsp1)
      | (AwaitingRequest i, lsp1) \<Rightarrow> (AwaitingRequest i, lsp1)
      | (AwaitingRead k, lsp1) \<Rightarrow> (AwaitingRead k, lsp1))"

definition findDefinition ::
  "platform \<Rightarrow> string \<Rightarrow> int \<Rightarrow> int \<Rightarrow> service \<Rightarrow> unit completion \<times> service" where
  "findDefinition pf relativeFilePath l c svc =
     (case getLspInstanceForFile svc relativeFilePath of
        None \<Rightarrow> (Threw (NoLspConfigured relativeFilePath), svc)
      | Some lsp \<Rightarrow>
          (case findDefinition_on pf relativeFilePath l c lsp of
             (r, lsp1) \<Rightarrow> (r, store svc (lspKeyForFile relativeFilePath) lsp1)))"

definition formatDocument_on ::
  "platform \<Rightarrow> string \<Rightarrow> client \<Rightarrow> unit completion \<times> client" where
  "formatDocument_on pf relativeFilePath lsp =
     (case ensureDocumentOpen pf relativeFilePath lsp of
        (Returned absolutePath, lsp1) \<Rightarrow>
          (case sendRequest ''textDocument/formatting''
                  (FormattingParams absolutePath) 5000 lsp1 of
             (Inl e, lsp2) \<Rightarrow> (Threw e, lsp2)
           | (Inr i, lsp2) \<Rightarrow> (AwaitingRequest i, lsp2))
      | (Threw e, lsp1) \<Rightarrow> (Threw e, lsp1)
      | (AwaitingInit, lsp1) \<Rightarrow> (AwaitingInit, lsp1)
      | (AwaitingRequest i, lsp1) \<Rightarrow> (AwaitingRequest i, lsp1)
      | (AwaitingRead k, lsp1) \<Rightarrow> (AwaitingRead k, lsp1))"

definition formatDocument ::
  "platform \<Rightarrow> string \<Rightarrow> service \<Rightarrow> unit completion \<times> service" where
  "formatDocument pf relativeFilePath svc =
     (case getLspInstanceForFile svc relativeFilePath of
        None \<Rightarrow> (Threw (NoLspConfigured relativeFilePath), svc)
      | Some lsp \<Rightarrow>
          (case formatDocument_on pf relativeFilePath lsp of
             (r, lsp1) \<Rightarrow> (r, store svc (lspKeyForFile relativeFilePath) lsp1)))"

text \<open>
  \<^verbatim>\<open>shutdownAll\<close>: \<^verbatim>\<open>close\<close> of every instance, one after the other; an exception of one
  \<^verbatim>\<open>close\<close> ends the loop. \<open>during key\<close> is what happens to the instance under \<open>key\<close>
  while its \<^verbatim>\<open>close\<close> is parked.
\<close>

fun shutdownAll :: "platform \<Rightarrow> (string \<Rightarrow> event list) \<Rightarrow> service \<Rightarrow> unit completion \<times> service" where
  "shutdownAll pf during [] = (Returned (), [])"
| "shutdownAll pf during ((key, inst) # rest) =
     (case close pf (during key) inst of
        (Returned u, inst1) \<Rightarrow>
          (case shutdownAll pf during rest of
             (r, rest1) \<Rightarrow> (r, (key, inst1) # rest1))
      | (r, inst1) \<Rightarrow> (r, (key, inst1) # rest))"

section \<open>Concrete clients used in the examples\<close>

text \<open>
  The reply to the initialize request, as text and parsed; a reply to request 2 whose
  result is the string of the one letter U+00E9 (two bytes in UTF-8, one code unit), and
  a reply to request 3, as bytes and parsed; a platform whose project root is
  \<^verbatim>\<open>/app/project\<close> and whose parser knows these three texts; the client of the configured
  server right after construction; the client after the handshake; that client with two
  requests in flight (ids 2 and 3); two edits and a text.
\<close>

definition initializeReplyText :: string where
  "initializeReplyText =
     ''{'' @ [CHR 0x22] @ ''id'' @ [CHR 0x22] @ '':1,'' @ [CHR 0x22] @ ''result'' @ [CHR 0x22] @
     '':{'' @ [CHR 0x22] @ ''capabilities'' @ [CHR 0x22] @ '':{}}}''"

definition initializeReply :: json where
  "initializeReply =
     JObj [(''id'', JNum 1), (''result'', JObj [(''capabilities'', JObj [])])]"

definition replyE :: string where
  "replyE =
     ''{'' @ [CHR 0x22] @ ''id'' @ [CHR 0x22] @ '':2,'' @ [CHR 0x22] @ ''result'' @ [CHR 0x22] @
     '':'' @ [CHR 0x22, CHR 0xC3, CHR 0xA9, CHR 0x22] @ ''}''"

definition replyE_parsed :: json where
  "replyE_parsed = JObj [(''id'', JNum 2), (''result'', JStr [CHR 0xE9])]"

definition reply7 :: string where
  "reply7 =
     ''{'' @ [CHR 0x22] @ ''id'' @ [CHR 0x22] @ '':3,'' @ [CHR 0x22] @ ''result'' @ [CHR 0x22] @
     '':7}''"

definition reply7_parsed :: json where
  "reply7_parsed = JObj [(''id'', JNum 3), (''result'', JNum 7)]"

definition posix :: platform where
  "posix =
     \<lparr>JSON_parse =
        (\<lambda>s. if s = toString initializeReplyText then Some initializeReply
             else if s = toString replyE then Some replyE_parsed
             else if s = toString reply7 then Some reply7_parsed
             else None),
      decodeURIComponent = Some,
      getAbsolutePath = (\<lambda>p. Some (''/app/project/'' @ p)),
      win32 = False,
      readFile = (\<lambda>_. Some ''let x = 1'')\<rparr>"

definition startedClient :: client where
  "startedClient = newLspProcess typescriptServer"

definition readyClient :: client where
  "readyClient = initialize_resume 1 (fst (handleMessage posix initializeReply startedClient))"

definition twoPending :: client where
  "twoPending =
     snd (sendRequest ''textDocument/definition'' (PositionParams ''/app/project/a.ts'' 0 0) 5000
       (snd (sendRequest ''textDocument/completion'' (PositionParams ''/app/project/a.ts'' 0 0) 5000
          readyClient)))"

definition editA :: edit where
  "editA = \<lparr>startLine = 0, startChar = 0, endLine = 0, endChar = 3, newText = ''const''\<rparr>"

definition editB :: edit where
  "editB = \<lparr>startLine = 1, startChar = 4, endLine = 2, endChar = 0, newText = '';''\<rparr>"

definition sampleText :: string where
  "sampleText = ''let a = 1'' @ [CHR 0x0A] @ ''a += 2'' @ [CHR 0x0A] @ ''print(a)''"

text \<open>The frame of \<open>replyE\<close>, cut between the two bytes of its letter.\<close>

definition replyE_head :: string where
  "replyE_head =
     ''Content-Length: 22'' @ [CHR 0x0D, CHR 0x0A, CHR 0x0D, CHR 0x0A] @
     ''{'' @ [CHR 0x22] @ ''id'' @ [CHR 0x22] @ '':2,'' @ [CHR 0x22] @ ''result'' @ [CHR 0x22] @
     '':'' @ [CHR 0x22, CHR 0xC3]"

definition replyE_tail :: string where
  "replyE_tail = [CHR 0xA9, CHR 0x22] @ ''}''"

text \<open>
  The ready client later in a session: \<open>rc\<close> is the handle of the next file read, \<open>rd\<close> the
  reads that calls are parked at, \<open>docs\<close> the versions recorded for the open documents,
  and \<open>sent\<close> what the client wrote to the server since the handshake.
\<close>

definition sessionClient ::
  "nat \<Rightarrow> (nat \<rightharpoonup> string \<times> string) \<Rightarrow> (string \<rightharpoonup> nat) \<Rightarrow> wire list \<Rightarrow> client" where
  "sessionClient rc rd docs sent =
     readyClient\<lparr>readCounter := rc, reads := rd, openDocuments := docs,
                 stdin := stdin readyClient @ sent\<rparr>"

section \<open>A request that is over\<close>

text \<open>
  Request \<open>i\<close> is spent with the outcome \<open>out\<close>: its id has been allocated, its future has
  settled with \<open>out\<close>, and it has no pending entry.
\<close>

definition spent :: "nat \<Rightarrow> outcome \<Rightarrow> client \<Rightarrow> bool" where
  "spent i out st \<longleftrightarrow>
     pendingRequests st i = None \<and> i < requestIdCounter st \<and> settled st i = Some out"

section \<open>Document versions on the wire\<close>

text \<open>
  The open and change notifications written for a path, in the order written: the method
  and the version of each. \<open>expected_versions n\<close> is an open with version 1 followed by
  changes with the versions 2 to \<open>n\<close>.
\<close>

fun versions_sent :: "string \<Rightarrow> wire list \<Rightarrow> (string \<times> nat) list" where
  "versions_sent p [] = []"
| "versions_sent p (Notification m (DidOpenParams q lang v text) # ws) =
     (if q = p then (m, v) # versions_sent p ws else versions_sent p ws)"
| "versions_sent p (Notification m (DidChangeParams q v text) # ws) =
     (if q = p then (m, v) # versions_sent p ws else versions_sent p ws)"
| "versions_sent p (w # ws) = versions_sent p ws"

definition expected_versions :: "nat \<Rightarrow> (string \<times> nat) list" where
  "expected_versions n =
     (if n = 0 then []
      else (''textDocument/didOpen'', 1) #
           map (\<lambda>v. (''textDocument/didChange'', v)) [2 ..< Suc n])"

text \<open>
  The file read of a parked call of \<^verbatim>\<open>ensureDocumentOpen\<close> settles in turn when it is
  rejected, or when the path of the call is still not in \<^verbatim>\<open>openDocuments\<close>: no other call
  has opened the document since this one tested the map. A sequence of events is orderly
  from a state when every read in it settles in turn.
\<close>

fun in_turn :: "client \<Rightarrow> event \<Rightarrow> bool" where
  "in_turn st (ReadSettles k (Some content)) =
     (case reads st k of
        None \<Rightarrow> True
      | Some (absolutePath, languageId) \<Rightarrow> openDocuments st absolutePath = None)"
| "in_turn st _ = True"

fun orderly :: "platform \<Rightarrow> client \<Rightarrow> event list \<Rightarrow> bool" where
  "orderly pf st [] = True"
| "orderly pf st (ev # evs) = (in_turn st ev \<and> orderly pf (step pf st ev) evs)"

text \<open>
  The invariant behind the versions: what was sent for each path is an expected
  sequence; while the client can send, the stored version of a path is the last version
  sent for it; a client with a subprocess that is not initialized has opened nothing and
  no call is parked at a read; and a pending handshake means not initialized.
\<close>

definition docs_inv :: "client \<Rightarrow> bool" where
  "docs_inv st \<longleftrightarrow>
     (\<forall>p. versions_sent p (stdin st) =
            expected_versions (length (versions_sent p (stdin st)))) \<and>
     (process st \<and> isInitialized st \<longrightarrow>
        (\<forall>p. openDocuments st p =
                (if versions_sent p (stdin st) = [] then None
                 else Some (length (versions_sent p (stdin st)))))) \<and>
     (process st \<and> \<not> isInitialized st \<longrightarrow>
        (\<forall>p. openDocuments st p = None \<and> versions_sent p (stdin st) = []) \<and>
        reads st = Map.empty) \<and>
     (initializationPromise st = Pending \<longrightarrow> \<not> isInitialized st)"

text \<open>Two states that agree on everything the invariant reads.\<close>

definition same_docs :: "client \<Rightarrow> client \<Rightarrow> bool" where
  "same_docs st st' \<longleftrightarrow>
     stdin st' = stdin st \<and> process st' = process st \<and>
     isInitialized st' = isInitialized st \<and> openDocuments st' = openDocuments st \<and>
     initializationPromise st' = initializationPromise st \<and> reads st' = reads st"

text \<open>
  No handshake and no future of the client has failed with the condition that the guard
  of the router raises.
\<close>

definition no_guard_error :: "client \<Rightarrow> bool" where
  "no_guard_error st \<longleftrightarrow>
     (\<forall>q. initializationPromise st \<noteq> Failed (NoLspConfigured q)) \<and>
     (\<forall>i q. settled st i \<noteq> Some (Rejected (NoLspConfigured q)))"

text \<open>
  The events that cannot settle request \<open>i\<close>: all but the firing of its own timer and the
  arrival of output. Request \<open>i\<close> is orphaned when the subprocess handle is gone while the
  request is still pending, its timer \<open>t\<close> armed and its future unsettled.
\<close>

fun leaves :: "nat \<Rightarrow> event \<Rightarrow> bool" where
  "leaves i (TimerFires j) = (j \<noteq> i)"
| "leaves i (Data chunk) = False"
| "leaves i _ = True"

definition orphaned :: "nat \<Rightarrow> timer \<Rightarrow> client \<Rightarrow> bool" where
  "orphaned i t st \<longleftrightarrow>
     \<not> process st \<and> pendingRequests st i = Some i \<and> timers st i = Some t \<and>
     settled st i = None"

text \<open>
  The bookkeeping of the requests is in order: a pending entry is under the id of its
  request and holds the handle of an armed timer, and its future is unsettled; the ids
  not yet allocated have no entry, no timer and no settled future; and every request
  for which \<open>F\<close> names a timer has been allocated and, while it is pending, has that
  timer armed.
\<close>

definition tracked :: "(nat \<rightharpoonup> timer) \<Rightarrow> client \<Rightarrow> bool" where
  "tracked F st \<longleftrightarrow>
     (\<forall>j. pendingRequests st j \<noteq> None \<longrightarrow>
        pendingRequests st j = Some j \<and> timers st j \<noteq> None \<and> settled st j = None) \<and>
     (\<forall>j. requestIdCounter st \<le> j \<longrightarrow>
        pendingRequests st j = None \<and> timers st j = None \<and> settled st j = None) \<and>
     (\<forall>j u. F j = Some u \<longrightarrow>
        j < requestIdCounter st \<and> (pendingRequests st j \<noteq> None \<longrightarrow> timers st j = Some u))"

section \<open>The concrete clients, evaluated\<close>

lemma startedClient_eq:
  "startedClient =
     \<lparr>config = typescriptServer, process = True, messageBuffer = [],
      pendingRequests = [1 \<mapsto> 1], requestIdCounter = 2, diagnostics = Map.empty,
      openDocuments = Map.empty, isInitialized = False, initializationPromise = Pending,
      stdin = [Request 1 ''initialize'' InitializeParams], signals = [],
      timers = [1 \<mapsto> \<lparr>t_method = ''initialize'', t_timeoutMs = 15000\<rparr>],
      settled = Map.empty,
      reads = Map.empty, readCounter = 1\<rparr>"
  by (simp add: startedClient_def newLspProcess_def initialize_start_def sendRequest_def Let_def)

lemma readyClient_eq:
  "readyClient =
     \<lparr>config = typescriptServer, process = True, messageBuffer = [],
      pendingRequests = Map.empty, requestIdCounter = 2, diagnostics = Map.empty,
      openDocuments = Map.empty, isInitialized = True, initializationPromise = Fulfilled,
      stdin = [Request 1 ''initialize'' InitializeParams,
               Notification ''initialized'' EmptyParams],
      signals = [], timers = Map.empty,
      settled = [1 \<mapsto> Resolved (Some (JObj [(''capabilities'', JObj [])]))],
      reads = Map.empty, readCounter = 1\<rparr>"
  by (simp add: readyClient_def startedClient_eq handleMessage_def handleResponse_def
      initializeReply_def initialize_resume_def settle_def sendNotification_def Let_def)

lemma twoPending_eq:
  "twoPending =
     \<lparr>config = typescriptServer, process = True, messageBuffer = [],
      pendingRequests = [2 \<mapsto> 2, 3 \<mapsto> 3], requestIdCounter = 4, diagnostics = Map.empty,
      openDocuments = Map.empty, isInitialized = True, initializationPromise = Fulfilled,
      stdin = [Request 1 ''initialize'' InitializeParams,
               Notification ''initialized'' EmptyParams,
               Request 2 ''textDocument/completion'' (PositionParams ''/app/project/a.ts'' 0 0),
               Request 3 ''textDocument/definition'' (PositionParams ''/app/project/a.ts'' 0 0)],
      signals = [],
      timers = [2 \<mapsto> \<lparr>t_method = ''textDocument/completion'', t_timeoutMs = 5000\<rparr>,
                3 \<mapsto> \<lparr>t_method = ''textDocument/definition'', t_timeoutMs = 5000\<rparr>],
      settled = [1 \<mapsto> Resolved (Some (JObj [(''capabilities'', JObj [])]))],
      reads = Map.empty, readCounter = 1\<rparr>"
  by (simp add: twoPending_def readyClient_eq sendRequest_def Let_def)

section \<open>What timers and output leave alone\<close>

text \<open>
  A timer that fires and a chunk of output that is handled change neither what was
  written to the subprocess, nor the handle, nor the initialized flag, nor the documents,
  nor the handshake, nor the parked reads.
\<close>

lemma same_docs_inv: "docs_inv st \<Longrightarrow> same_docs st st' \<Longrightarrow> docs_inv st'"
  by (simp add: docs_inv_def same_docs_def)

lemma same_docs_refl: "same_docs st st"
  by (simp add: same_docs_def)

lemma same_docs_trans: "same_docs a b \<Longrightarrow> same_docs b c \<Longrightarrow> same_docs a c"
  by (simp add: same_docs_def)

lemma onTimeout_same: "same_docs st (onTimeout i st)"
  by (simp add: same_docs_def onTimeout_def settle_def split: option.splits)

lemma handleResponse_same: "same_docs st (handleResponse message i st)"
  by (simp add: same_docs_def handleResponse_def settle_def Let_def split: option.splits)

lemma handleDiagnostics_same: "same_docs st (fst (handleDiagnostics pf message st))"
  by (simp add: same_docs_def handleDiagnostics_def split: option.splits json.splits sum.splits)

lemma handleMessage_same: "same_docs st (fst (handleMessage pf message st))"
  by (simp add: handleMessage_def handleResponse_same handleDiagnostics_same same_docs_refl
      split: option.splits)

lemma dispatch_same: "same_docs st (dispatch pf st messageJson)"
  by (simp add: dispatch_def handleMessage_same same_docs_refl split: option.splits)

lemma foldl_dispatch_same: "same_docs st (foldl (dispatch pf) st ps)"
proof (induction ps arbitrary: st)
  case Nil
  show ?case by (simp add: same_docs_refl)
next
  case (Cons a ps)
  have "same_docs st (dispatch pf st a)" by (rule dispatch_same)
  moreover have "same_docs (dispatch pf st a) (foldl (dispatch pf) (dispatch pf st a) ps)"
    by (rule Cons.IH)
  ultimately show ?case by (auto intro: same_docs_trans)
qed

lemma handleData_same: "same_docs st (handleData pf chunk st)"
proof -
  have "same_docs st (st\<lparr>messageBuffer := snd (handleData_loop (messageBuffer st @ toString chunk))\<rparr>)"
    by (simp add: same_docs_def)
  then show ?thesis
    unfolding handleData_def Let_def by (rule same_docs_trans) (rule foldl_dispatch_same)
qed

section \<open>Subprocess exit with requests in flight\<close>

text \<open>
  C1, as claimed: when the subprocess terminates, every pending request fails at once.
  The handlers of \<^verbatim>\<open>exit\<close> and \<^verbatim>\<open>error\<close> only clear the handle and the initialized flag.
  With requests 2 and 3 in flight, after the exit handler both are still pending, their
  futures are unsettled and their timers are still armed.
\<close>

theorem exit_fails_no_pending_request:
  "pendingRequests twoPending 2 = Some 2 \<and> pendingRequests twoPending 3 = Some 3 \<and>
   pendingRequests (onExit twoPending) 2 = Some 2 \<and>
   pendingRequests (onExit twoPending) 3 = Some 3 \<and>
   settled (onExit twoPending) 2 = None \<and> settled (onExit twoPending) 3 = None \<and>
   timers (onExit twoPending) 2 =
     Some \<lparr>t_method = ''textDocument/completion'', t_timeoutMs = 5000\<rparr> \<and>
   timers (onExit twoPending) 3 =
     Some \<lparr>t_method = ''textDocument/definition'', t_timeoutMs = 5000\<rparr>"
  by (simp add: twoPending_eq onExit_def)

text \<open>
  An orphaned request stays orphaned through every event other than the firing of its
  own timer and the arrival of output; and a client without a subprocess handle never
  gets one back.
\<close>

lemma orphaned_onTimeout: "orphaned i t st \<Longrightarrow> j \<noteq> i \<Longrightarrow> orphaned i t (onTimeout j st)"
  by (auto simp: orphaned_def onTimeout_def settle_def split: option.splits)

lemma orphaned_initialize_resume: "orphaned i t st \<Longrightarrow> orphaned i t (initialize_resume j st)"
  by (simp add: orphaned_def initialize_resume_def sendNotification_def
      split: option.splits outcome.splits)

lemma orphaned_sendRequest: "orphaned i t st \<Longrightarrow> sendRequest method ps timeoutMs st = (Inl (NotReady method), st)"
  by (simp add: orphaned_def sendRequest_def)

lemma orphaned_ensureDocumentOpen:
  "orphaned i t st \<Longrightarrow> orphaned i t (snd (ensureDocumentOpen pf rel st))"
  by (simp add: orphaned_def ensureDocumentOpen_def ensureDocumentOpen_resume_def
      Let_def split: promise.splits option.splits)

lemma orphaned_ensureDocumentOpen_read:
  "orphaned i t st \<Longrightarrow> orphaned i t (snd (ensureDocumentOpen_read a lang fileText st))"
  by (simp add: orphaned_def ensureDocumentOpen_read_def sendNotification_def Let_def
      split: option.splits)

lemma orphaned_readSettles:
  assumes "orphaned i t st"
  shows "orphaned i t (step pf st (ReadSettles k fileText))"
proof -
  from assms have "\<And>r. orphaned i t (st\<lparr>reads := r\<rparr>)" by (simp add: orphaned_def)
  with assms show ?thesis by (auto split: option.splits intro: orphaned_ensureDocumentOpen_read)
qed

lemma orphaned_notifyChanged: "orphaned i t st \<Longrightarrow> orphaned i t (notifyChanged a text st)"
  by (simp add: orphaned_def notifyChanged_def sendNotification_def Let_def)

lemma orphaned_close_start: "orphaned i t st \<Longrightarrow> close_start st = (Returned (), st)"
  by (simp add: orphaned_def close_start_def)

lemma orphaned_close_resume: "orphaned i t st \<Longrightarrow> snd (close_resume j st) = st"
  by (simp add: orphaned_def close_resume_def close_finally_def sendNotification_def)

lemma orphaned_step: "orphaned i t st \<Longrightarrow> leaves i ev \<Longrightarrow> orphaned i t (step pf st ev)"
  by (cases ev)
    (simp_all add: orphaned_onTimeout orphaned_initialize_resume orphaned_sendRequest
      orphaned_ensureDocumentOpen orphaned_readSettles orphaned_notifyChanged
      orphaned_close_start orphaned_close_resume del: step.simps(8),
     simp_all add: orphaned_def onExit_def onError_def)

lemma orphaned_run:
  "orphaned i t st \<Longrightarrow> \<forall>ev \<in> set evs. leaves i ev \<Longrightarrow> orphaned i t (run pf evs st)"
  unfolding run_def by (induction evs arbitrary: st) (simp_all add: orphaned_step)

lemma no_process_step: "\<not> process st \<Longrightarrow> \<not> process (step pf st ev)"
proof (cases ev)
  case (Data chunk)
  assume "\<not> process st"
  then show ?thesis using handleData_same [of st pf chunk] Data by (simp add: same_docs_def)
next
  case (TimerFires i)
  assume "\<not> process st"
  then show ?thesis using onTimeout_same [of st i] TimerFires by (simp add: same_docs_def)
qed (auto simp: onExit_def onError_def initialize_resume_def sendNotification_def
      sendRequest_def ensureDocumentOpen_def ensureDocumentOpen_resume_def
      ensureDocumentOpen_read_def notifyChanged_def close_start_def close_resume_def
      close_finally_def Let_def split: option.splits outcome.splits promise.splits)

lemma no_process_run: "\<not> process st \<Longrightarrow> \<not> process (run pf evs st)"
  unfolding run_def by (induction evs arbitrary: st) (simp_all add: no_process_step)

lemma orphaned_response:
  assumes "orphaned i t st" and "member message ''id'' = Some (JNum (int i))"
  shows "fst (handleMessage pf message st) = handleResponse message i st"
proof -
  have "message \<noteq> JNull" using assms(2) by auto
  with assms show ?thesis by (simp add: handleMessage_def orphaned_def)
qed

lemma orphaned_handleResponse:
  assumes "orphaned i t st"
  shows "settled (handleResponse message i st) i =
           Some (case member message ''error'' of
                   None \<Rightarrow> Resolved (member message ''result'')
                 | Some e \<Rightarrow> if truthy (Some e) then Rejected (LspError e)
                             else Resolved (member message ''result''))"
    and "pendingRequests (handleResponse message i st) i = None"
    and "timers (handleResponse message i st) i = None"
  using assms
  by (auto simp: orphaned_def handleResponse_def settle_def Let_def split: option.splits)

text \<open>
  The bookkeeping stays in order through every event, from the construction of the
  client on.
\<close>

lemma trackedI:
  assumes "\<And>j. pendingRequests st j \<noteq> None \<Longrightarrow>
             pendingRequests st j = Some j \<and> timers st j \<noteq> None \<and> settled st j = None"
    and "\<And>j. requestIdCounter st \<le> j \<Longrightarrow>
             pendingRequests st j = None \<and> timers st j = None \<and> settled st j = None"
    and "\<And>j u. F j = Some u \<Longrightarrow>
             j < requestIdCounter st \<and> (pendingRequests st j \<noteq> None \<longrightarrow> timers st j = Some u)"
  shows "tracked F st"
  unfolding tracked_def using assms by blast

lemma tracked_pending:
  "tracked F st \<Longrightarrow> pendingRequests st j \<noteq> None \<Longrightarrow>
   pendingRequests st j = Some j \<and> timers st j \<noteq> None \<and> settled st j = None"
  unfolding tracked_def by blast

lemma tracked_fresh:
  "tracked F st \<Longrightarrow> requestIdCounter st \<le> j \<Longrightarrow>
   pendingRequests st j = None \<and> timers st j = None \<and> settled st j = None"
  unfolding tracked_def by blast

lemma tracked_timer:
  "tracked F st \<Longrightarrow> F j = Some u \<Longrightarrow>
   j < requestIdCounter st \<and> (pendingRequests st j \<noteq> None \<longrightarrow> timers st j = Some u)"
  unfolding tracked_def by blast

lemma tracked_fields:
  "tracked F st \<Longrightarrow> pendingRequests st' = pendingRequests st \<Longrightarrow> timers st' = timers st \<Longrightarrow>
   settled st' = settled st \<Longrightarrow> requestIdCounter st' = requestIdCounter st \<Longrightarrow> tracked F st'"
  by (simp add: tracked_def)

lemma tracked_sendRequest:
  assumes "tracked F st"
  shows "tracked F (snd (sendRequest method ps timeoutMs st))"
proof (cases "\<not> process st \<or> (\<not> isInitialized st \<and> method \<noteq> ''initialize'')")
  case True
  then show ?thesis using assms by (simp add: sendRequest_def)
next
  case False
  let ?c = "requestIdCounter st"
  let ?st = "st\<lparr>requestIdCounter := ?c + 1,
            stdin := stdin st @ [Request ?c method ps],
            timers := (timers st)(?c \<mapsto> \<lparr>t_method = method, t_timeoutMs = timeoutMs\<rparr>),
            pendingRequests := (pendingRequests st)(?c \<mapsto> ?c)\<rparr>"
  from False have s: "snd (sendRequest method ps timeoutMs st) = ?st"
    by (auto simp: sendRequest_def Let_def)
  have "tracked F ?st"
  proof (rule trackedI)
    fix j assume "pendingRequests ?st j \<noteq> None"
    then show "pendingRequests ?st j = Some j \<and> timers ?st j \<noteq> None \<and> settled ?st j = None"
      using tracked_pending [OF assms, of j] tracked_fresh [OF assms, of ?c]
      by (cases "j = ?c") simp_all
  next
    fix j assume "requestIdCounter ?st \<le> j"
    then show "pendingRequests ?st j = None \<and> timers ?st j = None \<and> settled ?st j = None"
      using tracked_fresh [OF assms, of j] by simp
  next
    fix j u assume "F j = Some u"
    then show "j < requestIdCounter ?st \<and> (pendingRequests ?st j \<noteq> None \<longrightarrow> timers ?st j = Some u)"
      using tracked_timer [OF assms, of j u] by simp
  qed
  with s show ?thesis by simp
qed

lemma tracked_onTimeout:
  assumes "tracked F st"
  shows "tracked F (onTimeout k st)"
proof (cases "timers st k")
  case None
  then show ?thesis using assms by (simp add: onTimeout_def)
next
  case (Some t)
  have lt: "k < requestIdCounter st"
    using tracked_fresh [OF assms, of k] Some by (cases "k < requestIdCounter st") simp_all
  let ?st = "onTimeout k st"
  have p: "pendingRequests ?st = (pendingRequests st)(k := None)"
    and t: "timers ?st = (timers st)(k := None)"
    and c: "requestIdCounter ?st = requestIdCounter st"
    and s: "\<And>j. j \<noteq> k \<Longrightarrow> settled ?st j = settled st j"
    using Some by (simp_all add: onTimeout_def settle_def)
  show ?thesis
  proof (rule trackedI)
    fix j assume "pendingRequests ?st j \<noteq> None"
    then have "j \<noteq> k" and "pendingRequests st j \<noteq> None" by (auto simp: p split: if_splits)
    then show "pendingRequests ?st j = Some j \<and> timers ?st j \<noteq> None \<and> settled ?st j = None"
      using tracked_pending [OF assms, of j] by (simp add: p t s)
  next
    fix j assume "requestIdCounter ?st \<le> j"
    then have "requestIdCounter st \<le> j" and "j \<noteq> k" using lt by (simp_all add: c)
    then show "pendingRequests ?st j = None \<and> timers ?st j = None \<and> settled ?st j = None"
      using tracked_fresh [OF assms, of j] by (simp add: p t s)
  next
    fix j u assume "F j = Some u"
    then show "j < requestIdCounter ?st \<and> (pendingRequests ?st j \<noteq> None \<longrightarrow> timers ?st j = Some u)"
      using tracked_timer [OF assms, of j u] by (simp add: p t c)
  qed
qed

lemma tracked_handleResponse:
  assumes "tracked F st" and "pendingRequests st k \<noteq> None"
  shows "tracked F (handleResponse message k st)"
proof -
  from tracked_pending [OF assms] have pk: "pendingRequests st k = Some k" by simp
  have lt: "k < requestIdCounter st"
    using tracked_fresh [OF assms(1), of k] pk by (cases "k < requestIdCounter st") simp_all
  let ?st = "handleResponse message k st"
  have p: "pendingRequests ?st = (pendingRequests st)(k := None)"
    and t: "timers ?st = (timers st)(k := None)"
    and c: "requestIdCounter ?st = requestIdCounter st"
    and s: "\<And>j. j \<noteq> k \<Longrightarrow> settled ?st j = settled st j"
    using pk by (simp_all add: handleResponse_def settle_def Let_def split: option.splits)
  show ?thesis
  proof (rule trackedI)
    fix j assume "pendingRequests ?st j \<noteq> None"
    then have "j \<noteq> k" and "pendingRequests st j \<noteq> None" by (auto simp: p split: if_splits)
    then show "pendingRequests ?st j = Some j \<and> timers ?st j \<noteq> None \<and> settled ?st j = None"
      using tracked_pending [OF assms(1), of j] by (simp add: p t s)
  next
    fix j assume "requestIdCounter ?st \<le> j"
    then have "requestIdCounter st \<le> j" and "j \<noteq> k" using lt by (simp_all add: c)
    then show "pendingRequests ?st j = None \<and> timers ?st j = None \<and> settled ?st j = None"
      using tracked_fresh [OF assms(1), of j] by (simp add: p t s)
  next
    fix j u assume "F j = Some u"
    then show "j < requestIdCounter ?st \<and> (pendingRequests ?st j \<noteq> None \<longrightarrow> timers ?st j = Some u)"
      using tracked_timer [OF assms(1), of j u] by (simp add: p t c)
  qed
qed

lemma tracked_handleDiagnostics:
  "tracked F st \<Longrightarrow> tracked F (fst (handleDiagnostics pf message st))"
  by (auto simp: handleDiagnostics_def split: option.splits json.splits sum.splits
      intro: tracked_fields)

lemma pending_key_pending: "pending_key st x = Some j \<Longrightarrow> pendingRequests st j \<noteq> None"
  by (cases "(st, x)" rule: pending_key.cases) (auto split: if_splits)

lemma tracked_handleMessage: "tracked F st \<Longrightarrow> tracked F (fst (handleMessage pf message st))"
  by (auto simp: handleMessage_def tracked_handleDiagnostics split: option.splits
      intro: tracked_handleResponse dest: pending_key_pending)

lemma tracked_dispatch: "tracked F st \<Longrightarrow> tracked F (dispatch pf st messageJson)"
  by (simp add: dispatch_def tracked_handleMessage split: option.splits)

lemma tracked_foldl_dispatch: "tracked F st \<Longrightarrow> tracked F (foldl (dispatch pf) st ps)"
  by (induction ps arbitrary: st) (simp_all add: tracked_dispatch)

lemma tracked_handleData: "tracked F st \<Longrightarrow> tracked F (handleData pf chunk st)"
proof -
  assume a: "tracked F st"
  then have "tracked F (st\<lparr>messageBuffer := snd (handleData_loop (messageBuffer st @ toString chunk))\<rparr>)"
    by (simp add: tracked_def)
  then show ?thesis unfolding handleData_def Let_def by (rule tracked_foldl_dispatch)
qed

lemma tracked_initialize_resume: "tracked F st \<Longrightarrow> tracked F (initialize_resume j st)"
  by (auto simp: initialize_resume_def sendNotification_def split: option.splits outcome.splits
      intro: tracked_fields)

lemma tracked_ensureDocumentOpen:
  "tracked F st \<Longrightarrow> tracked F (snd (ensureDocumentOpen pf rel st))"
  by (auto simp: ensureDocumentOpen_def ensureDocumentOpen_resume_def Let_def
      split: promise.splits option.splits intro: tracked_fields)

lemma tracked_ensureDocumentOpen_read:
  "tracked F st \<Longrightarrow> tracked F (snd (ensureDocumentOpen_read a lang fileText st))"
  by (auto simp: ensureDocumentOpen_read_def sendNotification_def Let_def split: option.splits
      intro: tracked_fields)

lemma tracked_readSettles:
  assumes "tracked F st"
  shows "tracked F (step pf st (ReadSettles k fileText))"
proof -
  from assms have "\<And>r. tracked F (st\<lparr>reads := r\<rparr>)" by (simp add: tracked_def)
  with assms show ?thesis by (auto split: option.splits intro: tracked_ensureDocumentOpen_read)
qed

lemma tracked_notifyChanged: "tracked F st \<Longrightarrow> tracked F (notifyChanged a text st)"
  by (auto simp: notifyChanged_def sendNotification_def Let_def intro: tracked_fields)

lemma tracked_close_finally: "tracked F st \<Longrightarrow> tracked F (snd (close_finally st))"
  by (auto simp: close_finally_def sendNotification_def Let_def intro: tracked_fields)

lemma tracked_close_start: "tracked F st \<Longrightarrow> tracked F (snd (close_start st))"
  using tracked_sendRequest [of F st "''shutdown''" NullParams 2000]
  by (auto simp: close_start_def split: prod.splits sum.splits intro: tracked_close_finally)

lemma tracked_close_resume: "tracked F st \<Longrightarrow> tracked F (snd (close_resume j st))"
  by (simp add: close_resume_def tracked_close_finally)

lemma tracked_step: "tracked F st \<Longrightarrow> tracked F (step pf st ev)"
  by (cases ev)
    (simp_all add: tracked_onTimeout tracked_handleData tracked_initialize_resume
      tracked_sendRequest tracked_ensureDocumentOpen tracked_readSettles tracked_notifyChanged
      tracked_close_start tracked_close_resume del: step.simps(8),
     simp_all add: tracked_def onExit_def onError_def)

lemma tracked_run: "tracked F st \<Longrightarrow> tracked F (run pf evs st)"
  unfolding run_def by (induction evs arbitrary: st) (simp_all add: tracked_step)

lemma tracked_newLspProcess: "tracked Map.empty (newLspProcess cfg)"
  by (simp add: tracked_def newLspProcess_def initialize_start_def sendRequest_def Let_def)

lemma tracked_reachable: "tracked Map.empty (run pf evs (newLspProcess cfg))"
  by (rule tracked_run [OF tracked_newLspProcess])

lemma tracked_one:
  assumes "tracked Map.empty st" and "pendingRequests st i \<noteq> None" and "timers st i = Some t"
  shows "tracked [i \<mapsto> t] st"
proof (rule trackedI)
  fix j u assume "[i \<mapsto> t] j = Some u"
  then have j: "j = i" and u: "u = t" by (auto split: if_splits)
  have "i < requestIdCounter st"
    using tracked_fresh [OF assms(1), of i] assms(2) by (cases "i < requestIdCounter st") simp_all
  with j u assms(3)
  show "j < requestIdCounter st \<and> (pendingRequests st j \<noteq> None \<longrightarrow> timers st j = Some u)"
    by simp
next
  fix j assume "pendingRequests st j \<noteq> None"
  then show "pendingRequests st j = Some j \<and> timers st j \<noteq> None \<and> settled st j = None"
    by (rule tracked_pending [OF assms(1)])
next
  fix j assume "requestIdCounter st \<le> j"
  then show "pendingRequests st j = None \<and> timers st j = None \<and> settled st j = None"
    by (rule tracked_fresh [OF assms(1)])
qed

text \<open>
  C1, amended: the termination of the subprocess (exit or pipe error) fails no pending
  request. It only clears the handle and the initialized flag, and leaves the pending
  entries, the timers and the futures as they were. A request that is pending at that
  moment (in any state the client can reach from its construction) has its timer armed
  and its future unsettled, and it stays pending through every event other than the
  firing of its own timer and the handling of further output of the subprocess (the
  output listener stays attached). Whatever happens after the termination, as long as
  the request is still pending its timer is still armed and its future unsettled: when
  its timer then fires it fails with the timeout condition, and when a response bearing
  its id is then handled it settles with that response (it fails with the remote's
  error, or resolves with the result), its timer is cleared and its entry removed.
  Every request issued after the termination, whatever has happened since, fails at once
  with the not-ready condition and leaves the client as it is.
\<close>

theorem exit_leaves_requests_pending:
  assumes "st = run pf0 before (newLspProcess cfg)" and "pendingRequests st i \<noteq> None"
  shows "onError st = onExit st \<and>
         pendingRequests (onExit st) = pendingRequests st \<and>
         timers (onExit st) = timers st \<and>
         settled (onExit st) = settled st \<and>
         \<not> process (onExit st) \<and> \<not> isInitialized (onExit st) \<and>
         settled st i = None \<and>
         (\<exists>t. timers st i = Some t \<and>
            ((\<forall>ev \<in> set evs. leaves i ev) \<longrightarrow>
               pendingRequests (run pf evs (onExit st)) i \<noteq> None) \<and>
            (pendingRequests (run pf later (onExit st)) i \<noteq> None \<longrightarrow>
               timers (run pf later (onExit st)) i = Some t \<and>
               settled (run pf later (onExit st)) i = None \<and>
               settled (onTimeout i (run pf later (onExit st))) i =
                 Some (Rejected (TimedOut (t_method t) i (t_timeoutMs t))) \<and>
               (member message ''id'' = Some (JNum (int i)) \<longrightarrow>
                  (\<forall>e. member message ''error'' = Some e \<and> truthy (Some e) \<longrightarrow>
                     settled (fst (handleMessage pf message (run pf later (onExit st)))) i =
                       Some (Rejected (LspError e))) \<and>
                  (\<not> truthy (member message ''error'') \<longrightarrow>
                     settled (fst (handleMessage pf message (run pf later (onExit st)))) i =
                       Some (Resolved (member message ''result''))) \<and>
                  timers (fst (handleMessage pf message (run pf later (onExit st)))) i = None \<and>
                  pendingRequests (fst (handleMessage pf message (run pf later (onExit st)))) i =
                    None))) \<and>
         sendRequest method ps timeoutMs (run pf later (onExit st)) =
           (Inl (NotReady method), run pf later (onExit st))"
proof -
  have w: "tracked Map.empty st" unfolding assms(1) by (rule tracked_reachable)
  from tracked_pending [OF w assms(2)]
  have pi: "pendingRequests st i = Some i" and si: "settled st i = None"
    and "timers st i \<noteq> None" by simp_all
  then obtain t where ti: "timers st i = Some t" by auto
  have f: "tracked [i \<mapsto> t] st" using w assms(2) ti by (rule tracked_one)
  have "tracked [i \<mapsto> t] (onExit st)"
    using f by (rule tracked_fields) (simp_all add: onExit_def)
  then have fl: "tracked [i \<mapsto> t] (run pf later (onExit st))" by (rule tracked_run)
  have n: "\<not> process (run pf later (onExit st))"
    by (rule no_process_run) (simp add: onExit_def)
  have o: "orphaned i t (onExit st)" using pi ti si by (simp add: orphaned_def onExit_def)
  have 1: "(\<forall>ev \<in> set evs. leaves i ev) \<longrightarrow> pendingRequests (run pf evs (onExit st)) i \<noteq> None"
    using orphaned_run [OF o, of evs pf] by (auto simp: orphaned_def)
  have 2: "pendingRequests (run pf later (onExit st)) i \<noteq> None \<longrightarrow>
               timers (run pf later (onExit st)) i = Some t \<and>
               settled (run pf later (onExit st)) i = None \<and>
               settled (onTimeout i (run pf later (onExit st))) i =
                 Some (Rejected (TimedOut (t_method t) i (t_timeoutMs t))) \<and>
               (member message ''id'' = Some (JNum (int i)) \<longrightarrow>
                  (\<forall>e. member message ''error'' = Some e \<and> truthy (Some e) \<longrightarrow>
                     settled (fst (handleMessage pf message (run pf later (onExit st)))) i =
                       Some (Rejected (LspError e))) \<and>
                  (\<not> truthy (member message ''error'') \<longrightarrow>
                     settled (fst (handleMessage pf message (run pf later (onExit st)))) i =
                       Some (Resolved (member message ''result''))) \<and>
                  timers (fst (handleMessage pf message (run pf later (onExit st)))) i = None \<and>
                  pendingRequests (fst (handleMessage pf message (run pf later (onExit st)))) i =
                    None)"
  proof (intro impI)
    let ?st = "run pf later (onExit st)"
    assume p: "pendingRequests ?st i \<noteq> None"
    from tracked_pending [OF fl p] tracked_timer [OF fl, of i t] p n
    have r: "orphaned i t ?st" by (simp add: orphaned_def)
    have a: "settled (onTimeout i ?st) i =
               Some (Rejected (TimedOut (t_method t) i (t_timeoutMs t)))"
      using r by (simp add: orphaned_def onTimeout_def settle_def)
    have b: "member message ''id'' = Some (JNum (int i)) \<longrightarrow>
                  (\<forall>e. member message ''error'' = Some e \<and> truthy (Some e) \<longrightarrow>
                     settled (fst (handleMessage pf message ?st)) i =
                       Some (Rejected (LspError e))) \<and>
                  (\<not> truthy (member message ''error'') \<longrightarrow>
                     settled (fst (handleMessage pf message ?st)) i =
                       Some (Resolved (member message ''result''))) \<and>
                  timers (fst (handleMessage pf message ?st)) i = None \<and>
                  pendingRequests (fst (handleMessage pf message ?st)) i = None"
    proof
      assume m: "member message ''id'' = Some (JNum (int i))"
      have h: "fst (handleMessage pf message ?st) = handleResponse message i ?st"
        using r m by (rule orphaned_response)
      show "(\<forall>e. member message ''error'' = Some e \<and> truthy (Some e) \<longrightarrow>
                     settled (fst (handleMessage pf message ?st)) i =
                       Some (Rejected (LspError e))) \<and>
                  (\<not> truthy (member message ''error'') \<longrightarrow>
                     settled (fst (handleMessage pf message ?st)) i =
                       Some (Resolved (member message ''result''))) \<and>
                  timers (fst (handleMessage pf message ?st)) i = None \<and>
                  pendingRequests (fst (handleMessage pf message ?st)) i = None"
        unfolding h using orphaned_handleResponse [OF r, of message]
        by (auto split: option.splits)
    qed
    from r a b show "timers ?st i = Some t \<and> settled ?st i = None \<and>
               settled (onTimeout i ?st) i =
                 Some (Rejected (TimedOut (t_method t) i (t_timeoutMs t))) \<and>
               (member message ''id'' = Some (JNum (int i)) \<longrightarrow>
                  (\<forall>e. member message ''error'' = Some e \<and> truthy (Some e) \<longrightarrow>
                     settled (fst (handleMessage pf message ?st)) i =
                       Some (Rejected (LspError e))) \<and>
                  (\<not> truthy (member message ''error'') \<longrightarrow>
                     settled (fst (handleMessage pf message ?st)) i =
                       Some (Resolved (member message ''result''))) \<and>
                  timers (fst (handleMessage pf message ?st)) i = None \<and>
                  pendingRequests (fst (handleMessage pf message ?st)) i = None)"
      by (simp add: orphaned_def)
  qed
  have 3: "sendRequest method ps timeoutMs (run pf later (onExit st)) =
           (Inl (NotReady method), run pf later (onExit st))"
    using n by (simp add: sendRequest_def)
  have 4: "onError st = onExit st \<and>
         pendingRequests (onExit st) = pendingRequests st \<and>
         timers (onExit st) = timers st \<and>
         settled (onExit st) = settled st \<and>
         \<not> process (onExit st) \<and> \<not> isInitialized (onExit st)"
    by (simp add: onExit_def onError_def)
  from ti 1 2 3 4 si show ?thesis by blast
qed

theorem exit_leaves_requests_pending_witness:
  "startedClient = run posix [] (newLspProcess typescriptServer) \<and>
   pendingRequests startedClient 1 \<noteq> None \<and>
   settled startedClient 1 = None \<and>
   timers startedClient 1 = Some \<lparr>t_method = ''initialize'', t_timeoutMs = 15000\<rparr> \<and>
   list_all (leaves 1)
     [TimerFires 3, CallerRequest ''textDocument/hover'' NullParams 5000, EnsureOpen ''a.ts'',
      CloseStarts] \<and>
   pendingRequests
     (run posix
        [TimerFires 3, CallerRequest ''textDocument/hover'' NullParams 5000, EnsureOpen ''a.ts'',
         CloseStarts]
        (onExit startedClient)) 1 \<noteq> None \<and>
   settled
     (onTimeout 1
        (run posix
           [TimerFires 3, CallerRequest ''textDocument/hover'' NullParams 5000, EnsureOpen ''a.ts'',
            CloseStarts]
           (onExit startedClient))) 1 =
     Some (Rejected (TimedOut ''initialize'' 1 15000)) \<and>
   settled
     (fst (handleMessage posix (JObj [(''id'', JNum 1), (''error'', JObj [(''code'', JNum 1)])])
        (run posix
           [TimerFires 3, CallerRequest ''textDocument/hover'' NullParams 5000, EnsureOpen ''a.ts'',
            CloseStarts]
           (onExit startedClient)))) 1 =
     Some (Rejected (LspError (JObj [(''code'', JNum 1)]))) \<and>
   settled
     (fst (handleMessage posix initializeReply
        (run posix
           [TimerFires 3, CallerRequest ''textDocument/hover'' NullParams 5000, EnsureOpen ''a.ts'',
            CloseStarts]
           (onExit startedClient)))) 1 =
     Some (Resolved (Some (JObj [(''capabilities'', JObj [])]))) \<and>
   sendRequest ''textDocument/hover'' NullParams 5000
     (run posix
        [TimerFires 3, CallerRequest ''textDocument/hover'' NullParams 5000, EnsureOpen ''a.ts'',
         CloseStarts]
        (onExit startedClient)) =
     (Inl (NotReady ''textDocument/hover''),
      run posix
        [TimerFires 3, CallerRequest ''textDocument/hover'' NullParams 5000, EnsureOpen ''a.ts'',
         CloseStarts]
        (onExit startedClient))"
proof -
  let ?evs = "[TimerFires 3, CallerRequest ''textDocument/hover'' NullParams 5000,
               EnsureOpen ''a.ts'', CloseStarts]"
  let ?err = "JObj [(''id'', JNum 1), (''error'', JObj [(''code'', JNum 1)])]"
  let ?st = "run posix ?evs (onExit startedClient)"
  have r: "startedClient = run posix [] (newLspProcess typescriptServer)"
    by (simp add: run_def startedClient_def)
  have p: "pendingRequests startedClient 1 \<noteq> None"
    and tm: "timers startedClient 1 = Some \<lparr>t_method = ''initialize'', t_timeoutMs = 15000\<rparr>"
    by (simp_all add: startedClient_eq)
  have l: "\<forall>ev \<in> set ?evs. leaves 1 ev" by simp
  have me: "member ?err ''id'' = Some (JNum (int 1))"
    and ee: "member ?err ''error'' = Some (JObj [(''code'', JNum 1)])"
    and mr: "member initializeReply ''id'' = Some (JNum (int 1))"
    and er: "\<not> truthy (member initializeReply ''error'')"
    and rr: "member initializeReply ''result'' = Some (JObj [(''capabilities'', JObj [])])"
    by (simp_all add: initializeReply_def)
  note a = exit_leaves_requests_pending
    [OF r p, of ?evs posix ?evs ?err "''textDocument/hover''" NullParams 5000]
  note b = exit_leaves_requests_pending
    [OF r p, of ?evs posix ?evs initializeReply "''textDocument/hover''" NullParams 5000]
  from a have s0: "settled startedClient 1 = None"
    and q: "sendRequest ''textDocument/hover'' NullParams 5000 ?st =
              (Inl (NotReady ''textDocument/hover''), ?st)"
    by blast+
  from a l have pe: "pendingRequests ?st 1 \<noteq> None" by blast
  from a tm pe have to: "settled (onTimeout 1 ?st) 1 =
      Some (Rejected (TimedOut (t_method \<lparr>t_method = ''initialize'', t_timeoutMs = 15000\<rparr>) 1
              (t_timeoutMs \<lparr>t_method = ''initialize'', t_timeoutMs = 15000\<rparr>)))"
    by force
  from a pe me have "\<forall>e. member ?err ''error'' = Some e \<and> truthy (Some e) \<longrightarrow>
      settled (fst (handleMessage posix ?err ?st)) 1 = Some (Rejected (LspError e))"
    by blast
  with ee have se: "settled (fst (handleMessage posix ?err ?st)) 1 =
      Some (Rejected (LspError (JObj [(''code'', JNum 1)])))" by simp
  from b pe mr have "\<not> truthy (member initializeReply ''error'') \<longrightarrow>
      settled (fst (handleMessage posix initializeReply ?st)) 1 =
        Some (Resolved (member initializeReply ''result''))"
    by blast
  with er rr have sr: "settled (fst (handleMessage posix initializeReply ?st)) 1 =
      Some (Resolved (Some (JObj [(''capabilities'', JObj [])])))" by simp
  from to have to': "settled (onTimeout 1 ?st) 1 =
      Some (Rejected (TimedOut ''initialize'' 1 15000))" by simp
  from r p s0 tm pe to' se sr q show ?thesis by simp
qed


section \<open>Selecting the client for a path\<close>

text \<open>
  C3, as claimed: every path selects a configured client, so no public operation fails
  because of the extension. A path with the extension \<^verbatim>\<open>.vue\<close> is looked up under the key
  \<^verbatim>\<open>vue\<close>, the table \<^verbatim>\<open>lspServers\<close> configures no such server, and the guard of each of the
  four operations throws.
\<close>

theorem vue_selects_no_client:
  "extname ''src/App.vue'' = ''.vue'' \<and>
   getLspInstanceForFile newLspService ''src/App.vue'' = None \<and>
   fst (getDiagnostics posix ''src/App.vue'' newLspService) =
     Threw (NoLspConfigured ''src/App.vue'') \<and>
   fst (getCompletions posix ''src/App.vue'' 0 0 newLspService) =
     Threw (NoLspConfigured ''src/App.vue'') \<and>
   fst (findDefinition posix ''src/App.vue'' 0 0 newLspService) =
     Threw (NoLspConfigured ''src/App.vue'') \<and>
   fst (formatDocument posix ''src/App.vue'' newLspService) =
     Threw (NoLspConfigured ''src/App.vue'')"
  by (simp add: extname_def getLspInstanceForFile_def lspKeyForFile_def newLspService_def
      initializeInstances_def lspServers_def getDiagnostics_def getCompletions_def
      findDefinition_def formatDocument_def)

lemma keys_typescript:
  assumes "map fst svc = map fst lspServers"
  shows "\<exists>c. svc = [(''typescript'', c)]"
  using assms by (cases svc) (auto simp: lspServers_def)

text \<open>
  The condition of the guard comes from the guard only: no event gives it to a handshake
  or to a future of a client, and what an operation does after its guard does not fail
  with it.
\<close>

lemma nge_sendRequest: "no_guard_error st \<Longrightarrow> no_guard_error (snd (sendRequest method ps timeoutMs st))"
  by (simp add: no_guard_error_def sendRequest_def Let_def)

lemma nge_onTimeout: "no_guard_error st \<Longrightarrow> no_guard_error (onTimeout j st)"
  by (auto simp: no_guard_error_def onTimeout_def settle_def split: option.splits)

lemma nge_handleResponse: "no_guard_error st \<Longrightarrow> no_guard_error (handleResponse message j st)"
  by (auto simp: no_guard_error_def handleResponse_def settle_def Let_def split: option.splits)

lemma nge_handleDiagnostics:
  "no_guard_error st \<Longrightarrow> no_guard_error (fst (handleDiagnostics pf message st))"
  by (simp add: no_guard_error_def handleDiagnostics_def split: option.splits json.splits sum.splits)

lemma nge_handleMessage: "no_guard_error st \<Longrightarrow> no_guard_error (fst (handleMessage pf message st))"
  by (simp add: handleMessage_def nge_handleResponse nge_handleDiagnostics split: option.splits)

lemma nge_dispatch: "no_guard_error st \<Longrightarrow> no_guard_error (dispatch pf st messageJson)"
  by (simp add: dispatch_def nge_handleMessage split: option.splits)

lemma nge_foldl_dispatch: "no_guard_error st \<Longrightarrow> no_guard_error (foldl (dispatch pf) st ps)"
  by (induction ps arbitrary: st) (simp_all add: nge_dispatch)

lemma nge_handleData: "no_guard_error st \<Longrightarrow> no_guard_error (handleData pf chunk st)"
proof -
  assume a: "no_guard_error st"
  then have "no_guard_error (st\<lparr>messageBuffer := snd (handleData_loop (messageBuffer st @ toString chunk))\<rparr>)"
    by (simp add: no_guard_error_def)
  then show ?thesis unfolding handleData_def Let_def by (rule nge_foldl_dispatch)
qed

lemma nge_initialize_resume: "no_guard_error st \<Longrightarrow> no_guard_error (initialize_resume j st)"
  by (auto simp: no_guard_error_def initialize_resume_def sendNotification_def
      split: option.splits outcome.splits)

lemma nge_ensureDocumentOpen:
  "no_guard_error st \<Longrightarrow> no_guard_error (snd (ensureDocumentOpen pf rel st))"
  by (auto simp: no_guard_error_def ensureDocumentOpen_def ensureDocumentOpen_resume_def
      Let_def split: promise.splits option.splits)

lemma nge_ensureDocumentOpen_read:
  "no_guard_error st \<Longrightarrow> no_guard_error (snd (ensureDocumentOpen_read a lang fileText st))"
  by (simp add: no_guard_error_def ensureDocumentOpen_read_def sendNotification_def Let_def
      split: option.splits)

lemma nge_readSettles:
  assumes "no_guard_error st"
  shows "no_guard_error (step pf st (ReadSettles k fileText))"
proof -
  from assms have "\<And>r. no_guard_error (st\<lparr>reads := r\<rparr>)" by (simp add: no_guard_error_def)
  with assms show ?thesis by (auto split: option.splits intro: nge_ensureDocumentOpen_read)
qed

lemma nge_notifyChanged: "no_guard_error st \<Longrightarrow> no_guard_error (notifyChanged a text st)"
  by (simp add: no_guard_error_def notifyChanged_def sendNotification_def Let_def)

lemma nge_close_finally: "no_guard_error st \<Longrightarrow> no_guard_error (snd (close_finally st))"
  by (simp add: no_guard_error_def close_finally_def sendNotification_def Let_def)

lemma nge_close_start: "no_guard_error st \<Longrightarrow> no_guard_error (snd (close_start st))"
  using nge_sendRequest [of st "''shutdown''" NullParams 2000]
  by (auto simp: close_start_def split: prod.splits sum.splits intro: nge_close_finally)

lemma nge_close_resume: "no_guard_error st \<Longrightarrow> no_guard_error (snd (close_resume j st))"
  by (simp add: close_resume_def nge_close_finally)

lemma nge_step: "no_guard_error st \<Longrightarrow> no_guard_error (step pf st ev)"
  by (cases ev)
    (simp_all add: nge_onTimeout nge_handleData nge_initialize_resume nge_sendRequest
      nge_ensureDocumentOpen nge_readSettles nge_notifyChanged nge_close_start
      nge_close_resume del: step.simps(8),
     simp_all add: no_guard_error_def onExit_def onError_def)

lemma nge_run: "no_guard_error st \<Longrightarrow> no_guard_error (run pf evs st)"
  unfolding run_def by (induction evs arbitrary: st) (simp_all add: nge_step)

lemma nge_newLspProcess: "no_guard_error (newLspProcess cfg)"
  by (simp add: no_guard_error_def newLspProcess_def initialize_start_def sendRequest_def Let_def)

lemma nge_open:
  "no_guard_error st \<Longrightarrow> fst (ensureDocumentOpen pf rel st) \<noteq> Threw (NoLspConfigured q)"
  by (auto simp: no_guard_error_def ensureDocumentOpen_def ensureDocumentOpen_resume_def
      Let_def split: promise.splits option.splits)

lemma nge_getCompletions_on:
  "no_guard_error st \<Longrightarrow> fst (getCompletions_on pf rel l c st) \<noteq> Threw (NoLspConfigured q)"
  using nge_open [of st pf rel q]
  by (auto simp: getCompletions_on_def sendRequest_def Let_def split: prod.splits completion.splits)

lemma nge_findDefinition_on:
  "no_guard_error st \<Longrightarrow> fst (findDefinition_on pf rel l c st) \<noteq> Threw (NoLspConfigured q)"
  using nge_open [of st pf rel q]
  by (auto simp: findDefinition_on_def sendRequest_def Let_def split: prod.splits completion.splits)

lemma nge_formatDocument_on:
  "no_guard_error st \<Longrightarrow> fst (formatDocument_on pf rel st) \<noteq> Threw (NoLspConfigured q)"
  using nge_open [of st pf rel q]
  by (auto simp: formatDocument_on_def sendRequest_def Let_def split: prod.splits completion.splits)

text \<open>
  C3, amended: in a service with the configured instances, the selection depends on the
  extension of the path only. For every extension other than \<^verbatim>\<open>.vue\<close>, recognised or not,
  it yields the one configured client (the typescript client, which is also the
  default), and each of the four public operations passes its guard and does on that
  client what it does after the guard; whatever has happened to the client since its
  construction, none of them fails with the no-LSP-configured condition. For the
  extension \<^verbatim>\<open>.vue\<close> it yields no client, and each of the four public operations fails
  with the no-LSP-configured condition and changes nothing.
\<close>

theorem selectClient_by_extension:
  assumes "map fst svc = map fst lspServers"
  shows "(extname p = extname q \<longrightarrow> getLspInstanceForFile svc p = getLspInstanceForFile svc q) \<and>
         (extname p \<noteq> ''.vue'' \<longrightarrow>
            getLspInstanceForFile svc p = Some (snd (hd svc)) \<and>
            getDiagnostics pf p svc =
              (fst (ensureDocumentOpen pf p (snd (hd svc))),
               [(''typescript'', snd (ensureDocumentOpen pf p (snd (hd svc))))]) \<and>
            getCompletions pf p l c svc =
              (fst (getCompletions_on pf p l c (snd (hd svc))),
               [(''typescript'', snd (getCompletions_on pf p l c (snd (hd svc))))]) \<and>
            findDefinition pf p l c svc =
              (fst (findDefinition_on pf p l c (snd (hd svc))),
               [(''typescript'', snd (findDefinition_on pf p l c (snd (hd svc))))]) \<and>
            formatDocument pf p svc =
              (fst (formatDocument_on pf p (snd (hd svc))),
               [(''typescript'', snd (formatDocument_on pf p (snd (hd svc))))])) \<and>
         (extname p \<noteq> ''.vue'' \<and> snd (hd svc) = run pf0 evs (newLspProcess cfg) \<longrightarrow>
            fst (getDiagnostics pf p svc) \<noteq> Threw (NoLspConfigured anyPath) \<and>
            fst (getCompletions pf p l c svc) \<noteq> Threw (NoLspConfigured anyPath) \<and>
            fst (findDefinition pf p l c svc) \<noteq> Threw (NoLspConfigured anyPath) \<and>
            fst (formatDocument pf p svc) \<noteq> Threw (NoLspConfigured anyPath)) \<and>
         (extname p = ''.vue'' \<longrightarrow>
            getLspInstanceForFile svc p = None \<and>
            getDiagnostics pf p svc = (Threw (NoLspConfigured p), svc) \<and>
            getCompletions pf p l c svc = (Threw (NoLspConfigured p), svc) \<and>
            findDefinition pf p l c svc = (Threw (NoLspConfigured p), svc) \<and>
            formatDocument pf p svc = (Threw (NoLspConfigured p), svc))"
proof -
  from keys_typescript [OF assms] obtain cl where svc: "svc = [(''typescript'', cl)]" ..
  have 1: "extname p = extname q \<longrightarrow> getLspInstanceForFile svc p = getLspInstanceForFile svc q"
    by (simp add: getLspInstanceForFile_def lspKeyForFile_def)
  have 2: "extname p \<noteq> ''.vue'' \<longrightarrow> getLspInstanceForFile svc p = Some (snd (hd svc))"
    and 3: "extname p = ''.vue'' \<longrightarrow> getLspInstanceForFile svc p = None"
    and k: "extname p \<noteq> ''.vue'' \<longrightarrow> lspKeyForFile p = ''typescript''"
    by (simp_all add: svc getLspInstanceForFile_def lspKeyForFile_def)
  have 4: "extname p \<noteq> ''.vue'' \<longrightarrow>
            getDiagnostics pf p svc =
              (fst (ensureDocumentOpen pf p (snd (hd svc))),
               [(''typescript'', snd (ensureDocumentOpen pf p (snd (hd svc))))])"
    using 2 k by (simp add: getDiagnostics_def store_def svc split: prod.splits)
  have 5: "extname p \<noteq> ''.vue'' \<longrightarrow>
            getCompletions pf p l c svc =
              (fst (getCompletions_on pf p l c (snd (hd svc))),
               [(''typescript'', snd (getCompletions_on pf p l c (snd (hd svc))))])"
    using 2 k by (simp add: getCompletions_def store_def svc split: prod.splits)
  have 6: "extname p \<noteq> ''.vue'' \<longrightarrow>
            findDefinition pf p l c svc =
              (fst (findDefinition_on pf p l c (snd (hd svc))),
               [(''typescript'', snd (findDefinition_on pf p l c (snd (hd svc))))])"
    using 2 k by (simp add: findDefinition_def store_def svc split: prod.splits)
  have 7: "extname p \<noteq> ''.vue'' \<longrightarrow>
            formatDocument pf p svc =
              (fst (formatDocument_on pf p (snd (hd svc))),
               [(''typescript'', snd (formatDocument_on pf p (snd (hd svc))))])"
    using 2 k by (simp add: formatDocument_def store_def svc split: prod.splits)
  have 8: "extname p = ''.vue'' \<longrightarrow>
            getDiagnostics pf p svc = (Threw (NoLspConfigured p), svc) \<and>
            getCompletions pf p l c svc = (Threw (NoLspConfigured p), svc) \<and>
            findDefinition pf p l c svc = (Threw (NoLspConfigured p), svc) \<and>
            formatDocument pf p svc = (Threw (NoLspConfigured p), svc)"
    using 3 by (simp add: getDiagnostics_def getCompletions_def findDefinition_def
        formatDocument_def)
  have 9: "extname p \<noteq> ''.vue'' \<and> snd (hd svc) = run pf0 evs (newLspProcess cfg) \<longrightarrow>
            fst (getDiagnostics pf p svc) \<noteq> Threw (NoLspConfigured anyPath) \<and>
            fst (getCompletions pf p l c svc) \<noteq> Threw (NoLspConfigured anyPath) \<and>
            fst (findDefinition pf p l c svc) \<noteq> Threw (NoLspConfigured anyPath) \<and>
            fst (formatDocument pf p svc) \<noteq> Threw (NoLspConfigured anyPath)"
  proof
    assume a: "extname p \<noteq> ''.vue'' \<and> snd (hd svc) = run pf0 evs (newLspProcess cfg)"
    then have n: "no_guard_error (snd (hd svc))" by (simp add: nge_run nge_newLspProcess)
    from a 4 5 6 7 nge_open [OF n, of pf p anyPath] nge_getCompletions_on [OF n, of pf p l c anyPath]
      nge_findDefinition_on [OF n, of pf p l c anyPath] nge_formatDocument_on [OF n, of pf p anyPath]
    show "fst (getDiagnostics pf p svc) \<noteq> Threw (NoLspConfigured anyPath) \<and>
            fst (getCompletions pf p l c svc) \<noteq> Threw (NoLspConfigured anyPath) \<and>
            fst (findDefinition pf p l c svc) \<noteq> Threw (NoLspConfigured anyPath) \<and>
            fst (formatDocument pf p svc) \<noteq> Threw (NoLspConfigured anyPath)"
      by simp
  qed
  from 1 2 3 4 5 6 7 8 9 show ?thesis by blast
qed

theorem selectClient_by_extension_witness:
  "map fst newLspService = map fst lspServers \<and>
   extname ''src/util.py'' \<noteq> ''.vue'' \<and>
   getLspInstanceForFile newLspService ''src/util.py'' = Some startedClient \<and>
   getCompletions posix ''src/util.py'' 0 0 newLspService = (AwaitingInit, newLspService) \<and>
   formatDocument posix ''src/util.py'' [(''typescript'', readyClient)] =
     (AwaitingRead 1,
      [(''typescript'',
        readyClient\<lparr>readCounter := 2,
          reads := [1 \<mapsto> (''/app/project/src/util.py'', ''typescript'')]\<rparr>)]) \<and>
   fst (findDefinition posix ''src/util.py'' 0 0
          [(''typescript'', run posix [TimerFires 1, InitializeResumes 1] startedClient)]) =
     Threw (TimedOut ''initialize'' 1 15000) \<and>
   fst (findDefinition posix ''src/util.py'' 0 0
          [(''typescript'', run posix [TimerFires 1, InitializeResumes 1] startedClient)]) \<noteq>
     Threw (NoLspConfigured ''src/util.py'') \<and>
   extname ''src/App.vue'' = ''.vue'' \<and>
   getLspInstanceForFile newLspService ''src/App.vue'' = None \<and>
   formatDocument posix ''src/App.vue'' newLspService =
     (Threw (NoLspConfigured ''src/App.vue''), newLspService)"
proof -
  let ?failed = "run posix [TimerFires 1, InitializeResumes 1] startedClient"
  have k2: "map fst [(''typescript'', ?failed)] = map fst lspServers"
    by (simp add: lspServers_def)
  have h2: "snd (hd [(''typescript'', ?failed)]) =
              run posix [TimerFires 1, InitializeResumes 1] (newLspProcess typescriptServer)"
    by (simp add: startedClient_def)
  have d: "fst (findDefinition_on posix ''src/util.py'' 0 0 ?failed) =
             Threw (TimedOut ''initialize'' 1 15000)"
    by (simp add: run_def startedClient_eq onTimeout_def settle_def initialize_resume_def
        findDefinition_on_def ensureDocumentOpen_def)
  have n: "newLspService = [(''typescript'', startedClient)]"
    by (simp add: newLspService_def initializeInstances_def lspServers_def startedClient_def)
  have k: "map fst newLspService = map fst lspServers"
    and k': "map fst [(''typescript'', readyClient)] = map fst lspServers"
    by (simp_all add: n lspServers_def)
  have e1: "extname ''src/util.py'' \<noteq> ''.vue''" by (simp add: extname_def)
  have e2: "extname ''src/App.vue'' = ''.vue''" by (simp add: extname_def)
  have c: "getCompletions_on posix ''src/util.py'' 0 0 startedClient = (AwaitingInit, startedClient)"
    by (simp add: getCompletions_on_def ensureDocumentOpen_def startedClient_eq)
  have l: "languageIdFor typescriptServer ''/app/project/src/util.py'' = ''typescript''"
    by (simp add: typescriptServer_def languageIdFor_def suffix_def)
  have f: "formatDocument_on posix ''src/util.py'' readyClient =
      (AwaitingRead 1,
       readyClient\<lparr>readCounter := 2,
         reads := [1 \<mapsto> (''/app/project/src/util.py'', ''typescript'')]\<rparr>)"
    by (simp add: formatDocument_on_def ensureDocumentOpen_def ensureDocumentOpen_resume_def
        readyClient_eq posix_def l)
  from selectClient_by_extension [OF k, of "''src/util.py''" "''src/util.py''" posix 0 0] e1
  have 1: "getLspInstanceForFile newLspService ''src/util.py'' = Some (snd (hd newLspService))"
    and 2: "getCompletions posix ''src/util.py'' 0 0 newLspService =
              (fst (getCompletions_on posix ''src/util.py'' 0 0 (snd (hd newLspService))),
               [(''typescript'', snd (getCompletions_on posix ''src/util.py'' 0 0 (snd (hd newLspService))))])"
    by blast+
  from selectClient_by_extension [OF k', of "''src/util.py''" "''src/util.py''" posix 0 0] e1
  have 3: "formatDocument posix ''src/util.py'' [(''typescript'', readyClient)] =
              (fst (formatDocument_on posix ''src/util.py'' (snd (hd [(''typescript'', readyClient)]))),
               [(''typescript'',
                 snd (formatDocument_on posix ''src/util.py'' (snd (hd [(''typescript'', readyClient)]))))])"
    by blast
  from selectClient_by_extension [OF k, of "''src/App.vue''" "''src/App.vue''" posix 0 0] e2
  have 4: "getLspInstanceForFile newLspService ''src/App.vue'' = None"
    and 5: "formatDocument posix ''src/App.vue'' newLspService =
              (Threw (NoLspConfigured ''src/App.vue''), newLspService)"
    by blast+
  from 1 have v1: "getLspInstanceForFile newLspService ''src/util.py'' = Some startedClient"
    by (simp add: n)
  from 2 c have v2: "getCompletions posix ''src/util.py'' 0 0 newLspService =
      (AwaitingInit, newLspService)" by (simp add: n)
  from 3 f have v3: "formatDocument posix ''src/util.py'' [(''typescript'', readyClient)] =
     (AwaitingRead 1,
      [(''typescript'',
        readyClient\<lparr>readCounter := 2,
          reads := [1 \<mapsto> (''/app/project/src/util.py'', ''typescript'')]\<rparr>)])" by simp
  from selectClient_by_extension
         [OF k2, of "''src/util.py''" "''src/util.py''" posix 0 0 posix
            "[TimerFires 1, InitializeResumes 1]" typescriptServer "''src/util.py''"] e1 h2
  have 6: "findDefinition posix ''src/util.py'' 0 0 [(''typescript'', ?failed)] =
              (fst (findDefinition_on posix ''src/util.py'' 0 0 (snd (hd [(''typescript'', ?failed)]))),
               [(''typescript'',
                 snd (findDefinition_on posix ''src/util.py'' 0 0 (snd (hd [(''typescript'', ?failed)]))))])"
    and 7: "fst (findDefinition posix ''src/util.py'' 0 0 [(''typescript'', ?failed)]) \<noteq>
              Threw (NoLspConfigured ''src/util.py'')"
    by blast+
  from 6 d have v6: "fst (findDefinition posix ''src/util.py'' 0 0 [(''typescript'', ?failed)]) =
      Threw (TimedOut ''initialize'' 1 15000)" by simp
  from k e1 v1 v2 v3 v6 7 e2 4 5 show ?thesis by simp
qed

section \<open>Timeouts and late responses\<close>

text \<open>A spent request stays spent, whatever happens to the client afterwards.\<close>

lemma spent_sendRequest: "spent i out st \<Longrightarrow> spent i out (snd (sendRequest method ps timeoutMs st))"
  by (simp add: spent_def sendRequest_def Let_def)

lemma spent_onTimeout: "spent i out st \<Longrightarrow> spent i out (onTimeout j st)"
  by (auto simp: spent_def onTimeout_def settle_def split: option.splits)

lemma spent_handleResponse: "spent i out st \<Longrightarrow> spent i out (handleResponse message j st)"
  by (auto simp: spent_def handleResponse_def settle_def Let_def split: option.splits)

lemma spent_handleDiagnostics:
  "spent i out st \<Longrightarrow> spent i out (fst (handleDiagnostics pf message st))"
  by (simp add: spent_def handleDiagnostics_def split: option.splits json.splits sum.splits)

lemma spent_handleMessage: "spent i out st \<Longrightarrow> spent i out (fst (handleMessage pf message st))"
  by (simp add: handleMessage_def spent_handleResponse spent_handleDiagnostics split: option.splits)

lemma spent_dispatch: "spent i out st \<Longrightarrow> spent i out (dispatch pf st messageJson)"
  by (simp add: dispatch_def spent_handleMessage split: option.splits)

lemma spent_foldl_dispatch: "spent i out st \<Longrightarrow> spent i out (foldl (dispatch pf) st ps)"
  by (induction ps arbitrary: st) (simp_all add: spent_dispatch)

lemma spent_handleData: "spent i out st \<Longrightarrow> spent i out (handleData pf chunk st)"
proof -
  assume a: "spent i out st"
  then have "spent i out (st\<lparr>messageBuffer := snd (handleData_loop (messageBuffer st @ toString chunk))\<rparr>)"
    by (simp add: spent_def)
  then show ?thesis unfolding handleData_def Let_def by (rule spent_foldl_dispatch)
qed

lemma spent_initialize_resume: "spent i out st \<Longrightarrow> spent i out (initialize_resume j st)"
  by (simp add: spent_def initialize_resume_def sendNotification_def
      split: option.splits outcome.splits)

lemma spent_ensureDocumentOpen:
  "spent i out st \<Longrightarrow> spent i out (snd (ensureDocumentOpen pf rel st))"
  by (simp add: spent_def ensureDocumentOpen_def ensureDocumentOpen_resume_def
      Let_def split: promise.splits option.splits)

lemma spent_ensureDocumentOpen_read:
  "spent i out st \<Longrightarrow> spent i out (snd (ensureDocumentOpen_read a lang fileText st))"
  by (simp add: spent_def ensureDocumentOpen_read_def sendNotification_def Let_def
      split: option.splits)

lemma spent_readSettles: "spent i out st \<Longrightarrow> spent i out (step pf st (ReadSettles k fileText))"
proof -
  assume a: "spent i out st"
  then have "\<And>r. spent i out (st\<lparr>reads := r\<rparr>)" by (simp add: spent_def)
  with a show ?thesis by (auto split: option.splits intro: spent_ensureDocumentOpen_read)
qed

lemma spent_notifyChanged: "spent i out st \<Longrightarrow> spent i out (notifyChanged a text st)"
  by (simp add: spent_def notifyChanged_def sendNotification_def Let_def)

lemma spent_close_finally: "spent i out st \<Longrightarrow> spent i out (snd (close_finally st))"
  by (simp add: spent_def close_finally_def sendNotification_def Let_def)

lemma spent_close_start: "spent i out st \<Longrightarrow> spent i out (snd (close_start st))"
  using spent_sendRequest [of i out st "''shutdown''" NullParams 2000]
  by (auto simp: close_start_def split: prod.splits sum.splits intro: spent_close_finally)

lemma spent_close_resume: "spent i out st \<Longrightarrow> spent i out (snd (close_resume j st))"
  by (simp add: close_resume_def spent_close_finally)

lemma spent_step: "spent i out st \<Longrightarrow> spent i out (step pf st ev)"
  by (cases ev)
    (simp_all add: spent_onTimeout spent_handleData spent_initialize_resume spent_sendRequest
      spent_ensureDocumentOpen spent_readSettles spent_notifyChanged spent_close_start
      spent_close_resume del: step.simps(8),
     simp_all add: spent_def onExit_def onError_def)

lemma spent_run: "spent i out st \<Longrightarrow> spent i out (run pf evs st)"
  unfolding run_def by (induction evs arbitrary: st) (simp_all add: spent_step)

lemma spent_discards:
  assumes "spent i out st" and "member message ''id'' = Some (JNum (int i))"
    and "member message ''method'' = None"
  shows "handleMessage pf message st = (st, None)"
proof -
  have "message \<noteq> JNull" using assms(2) by auto
  with assms show ?thesis by (simp add: handleMessage_def spent_def)
qed

text \<open>
  C5: a request whose timer fires before any response (the timer is still armed and the
  future unsettled) fails with the timeout condition and loses its pending entry. From
  then on, whatever else happens to the client, the future keeps that outcome, and a
  response with the same id that arrives leaves the client as it is and raises nothing:
  it resolves no future and is not dispatched as a notification.
\<close>

theorem timeout_then_late_response:
  assumes "timers st i = Some t" and "settled st i = None" and "i < requestIdCounter st"
    and "member message ''id'' = Some (JNum (int i))" and "member message ''method'' = None"
  shows "settled (onTimeout i st) i =
           Some (Rejected (TimedOut (t_method t) i (t_timeoutMs t))) \<and>
         pendingRequests (onTimeout i st) i = None \<and>
         settled (run pf evs (onTimeout i st)) i =
           Some (Rejected (TimedOut (t_method t) i (t_timeoutMs t))) \<and>
         handleMessage pf message (run pf evs (onTimeout i st)) =
           (run pf evs (onTimeout i st), None)"
proof -
  let ?out = "Rejected (TimedOut (t_method t) i (t_timeoutMs t))"
  have s: "spent i ?out (onTimeout i st)"
    using assms(1,2,3) by (simp add: spent_def onTimeout_def settle_def)
  then have r: "spent i ?out (run pf evs (onTimeout i st))" by (rule spent_run)
  from s r spent_discards [OF r assms(4,5)] show ?thesis by (simp add: spent_def)
qed

theorem timeout_then_late_response_witness:
  "timers twoPending 2 = Some \<lparr>t_method = ''textDocument/completion'', t_timeoutMs = 5000\<rparr> \<and>
   settled twoPending 2 = None \<and> 2 < requestIdCounter twoPending \<and>
   member (JObj [(''id'', JNum 2), (''result'', JArr [])]) ''id'' = Some (JNum 2) \<and>
   member (JObj [(''id'', JNum 2), (''result'', JArr [])]) ''method'' = None \<and>
   settled (onTimeout 2 twoPending) 2 =
     Some (Rejected (TimedOut ''textDocument/completion'' 2 5000)) \<and>
   pendingRequests (onTimeout 2 twoPending) 2 = None \<and>
   settled (run posix [CallerRequest ''textDocument/hover'' NullParams 5000]
              (onTimeout 2 twoPending)) 2 =
     Some (Rejected (TimedOut ''textDocument/completion'' 2 5000)) \<and>
   handleMessage posix (JObj [(''id'', JNum 2), (''result'', JArr [])])
     (run posix [CallerRequest ''textDocument/hover'' NullParams 5000] (onTimeout 2 twoPending)) =
     (run posix [CallerRequest ''textDocument/hover'' NullParams 5000] (onTimeout 2 twoPending),
      None)"
proof -
  have a: "timers twoPending 2 =
             Some \<lparr>t_method = ''textDocument/completion'', t_timeoutMs = 5000\<rparr>"
    by (simp add: twoPending_eq)
  have b: "settled twoPending 2 = None" by (simp add: twoPending_eq)
  have n: "2 < requestIdCounter twoPending" by (simp add: twoPending_eq)
  have c: "member (JObj [(''id'', JNum 2), (''result'', JArr [])]) ''id'' = Some (JNum (int 2))"
    by simp
  have d: "member (JObj [(''id'', JNum 2), (''result'', JArr [])]) ''method'' = None" by simp
  from timeout_then_late_response
         [OF a b n c d, of posix "[CallerRequest ''textDocument/hover'' NullParams 5000]"]
       a b n c d
  show ?thesis by simp
qed

section \<open>Requests and notifications on a client that is not ready\<close>

text \<open>
  C6: a request other than the handshake request, issued while the handle is absent or
  the client is not initialized, is rejected at once with the not-ready condition; the
  client is unchanged, so nothing is written and nothing is queued.
\<close>

theorem sendRequest_not_ready:
  assumes "method \<noteq> ''initialize''" and "\<not> process st \<or> \<not> isInitialized st"
  shows "sendRequest method ps timeoutMs st = (Inl (NotReady method), st)"
  using assms by (auto simp: sendRequest_def)

theorem sendRequest_not_ready_witness:
  "''textDocument/completion'' \<noteq> ''initialize'' \<and> \<not> isInitialized startedClient \<and>
   sendRequest ''textDocument/completion'' (PositionParams ''/app/project/a.ts'' 0 0) 5000
     startedClient = (Inl (NotReady ''textDocument/completion''), startedClient)"
proof -
  have a: "''textDocument/completion'' \<noteq> ''initialize''" by simp
  have b: "\<not> isInitialized startedClient" by (simp add: startedClient_eq)
  from b have c: "\<not> process startedClient \<or> \<not> isInitialized startedClient" by simp
  show ?thesis using a b sendRequest_not_ready [OF a c] by simp
qed

text \<open>
  C10: a notification other than \<^verbatim>\<open>initialized\<close>, sent while the handle is absent or the
  client is not initialized, returns with the client unchanged: nothing is written to
  the subprocess, nothing is kept for later, and no exception is raised.
\<close>

theorem sendNotification_dropped:
  assumes "method \<noteq> ''initialized''" and "\<not> process st \<or> \<not> isInitialized st"
  shows "sendNotification method ps st = st"
  using assms by (auto simp: sendNotification_def)

theorem sendNotification_dropped_witness:
  "''textDocument/didOpen'' \<noteq> ''initialized'' \<and> \<not> process (onExit readyClient) \<and>
   sendNotification ''textDocument/didOpen''
     (DidOpenParams ''/app/project/a.ts'' ''typescript'' 1 ''let x = 1'') (onExit readyClient)
     = onExit readyClient \<and>
   stdin (onExit readyClient) = stdin readyClient"
proof -
  have a: "''textDocument/didOpen'' \<noteq> ''initialized''" by simp
  have b: "\<not> process (onExit readyClient)" by (simp add: onExit_def)
  from b have c: "\<not> process (onExit readyClient) \<or> \<not> isInitialized (onExit readyClient)"
    by simp
  show ?thesis using a b sendNotification_dropped [OF a c] by (simp add: onExit_def)
qed

section \<open>Orderly shutdown\<close>

text \<open>
  C4, as claimed: for every client with a live subprocess, shutdown sends an exit
  notification and kills the subprocess in every case, also when the shutdown request was
  never sent. The freshly constructed service has a live subprocess whose handshake is
  still pending; \<^verbatim>\<open>shutdownAll\<close> sends it SIGTERM, and what was written to it is the
  initialize request and nothing else: \<^verbatim>\<open>sendNotification\<close> drops the exit notification
  of a client that is not initialized.
\<close>

theorem shutdown_skips_exit_when_not_initialized:
  "process startedClient \<and>
   shutdownAll posix (\<lambda>_. []) newLspService =
     (Returned (),
      [(''typescript'',
        startedClient\<lparr>signals := [''SIGTERM''], isInitialized := False, process := False\<rparr>)]) \<and>
   stdin (startedClient\<lparr>signals := [''SIGTERM''], isInitialized := False, process := False\<rparr>) =
     [Request 1 ''initialize'' InitializeParams]"
  by (simp add: newLspService_def initializeInstances_def lspServers_def close_def
      close_start_def close_finally_def sendNotification_def startedClient_def [symmetric]
      startedClient_eq)

lemma shutdownAll_all_returned:
  "(\<forall>(k, c) \<in> set svc. fst (close pf (during k) c) = Returned ()) \<Longrightarrow>
   shutdownAll pf during svc =
     (Returned (), map (\<lambda>(k, c). (k, snd (close pf (during k) c))) svc)"
proof (induction svc)
  case Nil
  then show ?case by simp
next
  case (Cons a svc)
  obtain k c where a: "a = (k, c)" by (cases a)
  from Cons.prems a have r: "fst (close pf (during k) c) = Returned ()" by simp
  then obtain c1 where c1: "close pf (during k) c = (Returned (), c1)"
    by (cases "close pf (during k) c") simp
  from Cons show ?case by (simp add: a c1)
qed

lemma close_not_initialized:
  assumes "process st" and "\<not> isInitialized st"
  shows "close pf evs st =
          (Returned (),
           st\<lparr>signals := signals st @ [''SIGTERM''], isInitialized := False, process := False\<rparr>)"
  using assms by (simp add: close_def close_start_def close_finally_def sendNotification_def)

lemma close_start_initialized:
  assumes "process st" and "isInitialized st"
  shows "close_start st =
          (AwaitingRequest (requestIdCounter st),
           st\<lparr>requestIdCounter := requestIdCounter st + 1,
              stdin := stdin st @ [Request (requestIdCounter st) ''shutdown'' NullParams],
              timers := (timers st)(requestIdCounter st \<mapsto>
                           \<lparr>t_method = ''shutdown'', t_timeoutMs = 2000\<rparr>),
              pendingRequests :=
                (pendingRequests st)(requestIdCounter st \<mapsto> requestIdCounter st)\<rparr>)"
  using assms by (simp add: close_start_def sendRequest_def Let_def)

lemma close_initialized:
  assumes "process st" and "isInitialized st"
    and "settled (run pf evs (snd (close_start st))) (requestIdCounter st) \<noteq> None"
    and "process (run pf evs (snd (close_start st)))"
    and "isInitialized (run pf evs (snd (close_start st)))"
  shows "close pf evs st =
          (Returned (),
           (run pf evs (snd (close_start st)))
             \<lparr>stdin := stdin (run pf evs (snd (close_start st))) @
                         [Notification ''exit'' NullParams],
              signals := signals (run pf evs (snd (close_start st))) @ [''SIGTERM''],
              isInitialized := False, process := False\<rparr>)"
proof -
  from assms(1,2)
  have cs: "close_start st = (AwaitingRequest (requestIdCounter st), snd (close_start st))"
    by (simp add: close_start_initialized)
  show ?thesis
    unfolding close_def
    apply (subst cs)
    using assms(3,4,5)
    apply (simp add: close_resume_def close_finally_def sendNotification_def)
    done
qed

text \<open>
  C4, amended: \<^verbatim>\<open>shutdownAll\<close> runs \<^verbatim>\<open>close\<close> on its clients one after the other. For a client
  with a live subprocess that is not initialized, \<^verbatim>\<open>close\<close> sends no shutdown request and
  no exit notification and kills the subprocess with SIGTERM. For a client with a live
  subprocess that is initialized, \<^verbatim>\<open>close\<close> sends a shutdown request with a timeout of
  2000 ms and, once that request has settled (answered, failed or timed out) with the
  subprocess handle still present and the client still initialized, sends the exit
  notification and kills the subprocess with SIGTERM.
\<close>

theorem shutdownAll_closes_each_client:
  "((\<forall>(k, c) \<in> set svc. fst (close pf (during k) c) = Returned ()) \<longrightarrow>
      shutdownAll pf during svc =
        (Returned (), map (\<lambda>(k, c). (k, snd (close pf (during k) c))) svc)) \<and>
   (process st \<and> \<not> isInitialized st \<longrightarrow>
      close pf evs st =
        (Returned (),
         st\<lparr>signals := signals st @ [''SIGTERM''], isInitialized := False, process := False\<rparr>)) \<and>
   (process st \<and> isInitialized st \<longrightarrow>
      close_start st =
        (AwaitingRequest (requestIdCounter st),
         st\<lparr>requestIdCounter := requestIdCounter st + 1,
            stdin := stdin st @ [Request (requestIdCounter st) ''shutdown'' NullParams],
            timers := (timers st)(requestIdCounter st \<mapsto>
                         \<lparr>t_method = ''shutdown'', t_timeoutMs = 2000\<rparr>),
            pendingRequests :=
              (pendingRequests st)(requestIdCounter st \<mapsto> requestIdCounter st)\<rparr>) \<and>
      (settled (run pf evs (snd (close_start st))) (requestIdCounter st) \<noteq> None \<and>
       process (run pf evs (snd (close_start st))) \<and>
       isInitialized (run pf evs (snd (close_start st))) \<longrightarrow>
         close pf evs st =
           (Returned (),
            (run pf evs (snd (close_start st)))
              \<lparr>stdin := stdin (run pf evs (snd (close_start st))) @
                          [Notification ''exit'' NullParams],
               signals := signals (run pf evs (snd (close_start st))) @ [''SIGTERM''],
               isInitialized := False, process := False\<rparr>)))"
  using shutdownAll_all_returned [of svc pf during] close_not_initialized [of st pf evs]
    close_start_initialized [of st] close_initialized [of st pf evs]
  by blast

lemma closing_eq:
  "run posix [TimerFires 2] (snd (close_start readyClient)) =
     readyClient\<lparr>requestIdCounter := 3,
       stdin := stdin readyClient @ [Request 2 ''shutdown'' NullParams],
       settled := (settled readyClient)(2 \<mapsto> Rejected (TimedOut ''shutdown'' 2 2000))\<rparr>"
  by (simp add: run_def close_start_def sendRequest_def onTimeout_def settle_def Let_def
      readyClient_eq)

theorem shutdownAll_closes_each_client_witness:
  "process startedClient \<and> \<not> isInitialized startedClient \<and>
   close posix [] startedClient =
     (Returned (),
      startedClient\<lparr>signals := [''SIGTERM''], isInitialized := False, process := False\<rparr>) \<and>
   process readyClient \<and> isInitialized readyClient \<and>
   settled (run posix [TimerFires 2] (snd (close_start readyClient))) 2 =
     Some (Rejected (TimedOut ''shutdown'' 2 2000)) \<and>
   shutdownAll posix (\<lambda>_. [TimerFires 2]) [(''typescript'', readyClient)] =
     (Returned (),
      [(''typescript'',
        readyClient\<lparr>requestIdCounter := 3,
          stdin := stdin readyClient @
                   [Request 2 ''shutdown'' NullParams, Notification ''exit'' NullParams],
          settled := (settled readyClient)(2 \<mapsto> Rejected (TimedOut ''shutdown'' 2 2000)),
          signals := [''SIGTERM''], isInitialized := False, process := False\<rparr>)])"
proof -
  note t1 = shutdownAll_closes_each_client
    [of "[(''typescript'', readyClient)]" posix "\<lambda>_. [TimerFires 2]" startedClient "[]"]
  note t2 = shutdownAll_closes_each_client
    [of "[]" posix "\<lambda>_. []" readyClient "[TimerFires 2]"]
  have s1: "process startedClient" and s2: "\<not> isInitialized startedClient"
    and s3: "signals startedClient = []"
    by (simp_all add: startedClient_eq)
  have r1: "process readyClient" and r2: "isInitialized readyClient"
    and r3: "requestIdCounter readyClient = 2" and r4: "signals readyClient = []"
    by (simp_all add: readyClient_eq)
  have c1: "settled (run posix [TimerFires 2] (snd (close_start readyClient))) 2 =
      Some (Rejected (TimedOut ''shutdown'' 2 2000))"
    and c2: "process (run posix [TimerFires 2] (snd (close_start readyClient)))"
    and c3: "isInitialized (run posix [TimerFires 2] (snd (close_start readyClient)))"
    by (simp_all add: closing_eq r1 r2)
  from t1 s1 s2 s3 have a: "close posix [] startedClient =
     (Returned (),
      startedClient\<lparr>signals := [''SIGTERM''], isInitialized := False, process := False\<rparr>)"
    by simp
  from t2 r1 r2 r3 c1 c2 c3 have b: "close posix [TimerFires 2] readyClient =
     (Returned (),
      (run posix [TimerFires 2] (snd (close_start readyClient)))
        \<lparr>stdin := stdin (run posix [TimerFires 2] (snd (close_start readyClient))) @
                    [Notification ''exit'' NullParams],
         signals := signals (run posix [TimerFires 2] (snd (close_start readyClient))) @
                    [''SIGTERM''],
         isInitialized := False, process := False\<rparr>)"
    by simp
  from b have b': "close posix [TimerFires 2] readyClient =
     (Returned (),
        readyClient\<lparr>requestIdCounter := 3,
          stdin := stdin readyClient @
                   [Request 2 ''shutdown'' NullParams, Notification ''exit'' NullParams],
          settled := (settled readyClient)(2 \<mapsto> Rejected (TimedOut ''shutdown'' 2 2000)),
          signals := [''SIGTERM''], isInitialized := False, process := False\<rparr>)"
    by (simp add: closing_eq r4)
  from t1 b' have c: "shutdownAll posix (\<lambda>_. [TimerFires 2]) [(''typescript'', readyClient)] =
     (Returned (),
      [(''typescript'',
        readyClient\<lparr>requestIdCounter := 3,
          stdin := stdin readyClient @
                   [Request 2 ''shutdown'' NullParams, Notification ''exit'' NullParams],
          settled := (settled readyClient)(2 \<mapsto> Rejected (TimedOut ''shutdown'' 2 2000)),
          signals := [''SIGTERM''], isInitialized := False, process := False\<rparr>)])"
    by simp
  from s1 s2 a r1 r2 c1 c show ?thesis by simp
qed

section \<open>The order of two edits\<close>

lemma sort_pair_later_first:
  assumes "startLine e1 < startLine e2 \<or>
           (startLine e1 = startLine e2 \<and> startChar e1 < startChar e2)"
  shows "array_sort compareEdits [e1, e2] = [e2, e1]"
    and "array_sort compareEdits [e2, e1] = [e2, e1]"
  using assms by (auto simp: array_sort_def compareEdits_def)

text \<open>
  C7: for two edits of which the first starts earlier in the document (an earlier line, or
  the same line and an earlier character), the edit applier gives the same result for
  both input orders, and that result is the one of applying the later edit first and the
  earlier edit second with no sort. This holds whether or not the edits overlap, and also
  when an edit names a line the text does not have (both sides then fail alike).
\<close>

theorem applyEdits_pair_order:
  assumes "startLine e1 < startLine e2 \<or>
           (startLine e1 = startLine e2 \<and> startChar e1 < startChar e2)"
  shows "applyEdits [e1, e2] content = applyEdits [e2, e1] content \<and>
         applyEdits [e1, e2] content = applyUnsorted [e2, e1] content"
  using sort_pair_later_first [OF assms] by (simp add: applyEdits_def applyUnsorted_def)

theorem applyEdits_pair_order_witness:
  "startLine editA < startLine editB \<and>
   applyEdits [editA, editB] sampleText =
     Inr (''const a = 1'' @ [CHR 0x0A] @ ''a +=;print(a)'') \<and>
   applyEdits [editB, editA] sampleText =
     Inr (''const a = 1'' @ [CHR 0x0A] @ ''a +=;print(a)'') \<and>
   applyUnsorted [editB, editA] sampleText =
     Inr (''const a = 1'' @ [CHR 0x0A] @ ''a +=;print(a)'')"
proof -
  have a: "startLine editA < startLine editB" by (simp add: editA_def editB_def)
  then have h: "startLine editA < startLine editB \<or>
      (startLine editA = startLine editB \<and> startChar editA < startChar editB)" by simp
  have v: "applyUnsorted [editB, editA] sampleText =
      Inr (''const a = 1'' @ [CHR 0x0A] @ ''a +=;print(a)'')"
    by (simp add: applyUnsorted_def editA_def editB_def sampleText_def applyEdit_def
        substring_def substring_from_def splice_def Let_def)
  from applyEdits_pair_order [OF h, of sampleText]
  have 1: "applyEdits [editA, editB] sampleText = applyEdits [editB, editA] sampleText"
    and 2: "applyEdits [editA, editB] sampleText = applyUnsorted [editB, editA] sampleText"
    by blast+
  from 2 v have 3: "applyEdits [editA, editB] sampleText =
      Inr (''const a = 1'' @ [CHR 0x0A] @ ''a +=;print(a)'')" by simp
  from 1 3 have 4: "applyEdits [editB, editA] sampleText =
      Inr (''const a = 1'' @ [CHR 0x0A] @ ''a +=;print(a)'')" by simp
  from a 3 4 v show ?thesis by simp
qed

section \<open>The framer on a payload that is not ASCII\<close>

lemma utf8_decode_Nil: "utf8_decode [] = []"
  by (subst utf8_decode.simps) simp

lemma utf8_decode_Cons:
  "utf8_decode (b # bs) =
     fst (decode1 (b # bs)) @ utf8_decode (drop (snd (decode1 (b # bs))) (b # bs))"
  by (subst utf8_decode.simps) simp

lemma loop_none: "regex_match buf = None \<Longrightarrow> handleData_loop buf = ([], buf)"
  by (subst handleData_loop.simps) simp

lemma loop_short:
  "regex_match buf = Some (h, ds) \<Longrightarrow> length buf < h + parseInt ds \<Longrightarrow>
   handleData_loop buf = ([], buf)"
  by (subst handleData_loop.simps) simp

lemma loop_cut:
  "regex_match buf = Some (h, ds) \<Longrightarrow> \<not> length buf < h + parseInt ds \<Longrightarrow>
   handleData_loop buf =
     (substring h (h + parseInt ds) buf # fst (handleData_loop (drop (h + parseInt ds) buf)),
      snd (handleData_loop (drop (h + parseInt ds) buf)))"
  by (subst handleData_loop.simps) (simp add: substring_from_def Let_def)

lemma decimal_1: "decimal (Suc 0) = ''1''"
  by code_simp

lemma decimal_19: "decimal 19 = ''19''"
  by code_simp

lemma decimal_22: "decimal 22 = ''22''"
  by code_simp

lemma length_replyE: "length replyE = 22"
  by (simp add: replyE_def)

lemma length_reply7: "length reply7 = 19"
  by (simp add: reply7_def)

lemma toString_replyE:
  "toString replyE =
     [123, 34, 105, 100, 34, 58, 50, 44, 34, 114, 101, 115, 117, 108, 116, 34, 58,
      34, 233, 34, 125]"
  by (simp add: replyE_def toString_def utf8_decode_Cons utf8_decode_Nil is_cont_def)

lemma toString_reply7:
  "toString reply7 =
     [123, 34, 105, 100, 34, 58, 51, 44, 34, 114, 101, 115, 117, 108, 116, 34, 58,
      55, 125]"
  by (simp add: reply7_def toString_def utf8_decode_Cons utf8_decode_Nil)

lemma toString_frame_reply7:
  "toString (frame reply7) =
     [67, 111, 110, 116, 101, 110, 116, 45, 76, 101, 110, 103, 116, 104, 58, 32, 49,
      57, 13, 10, 13, 10, 123, 34, 105, 100, 34, 58, 51, 44, 34, 114, 101, 115, 117,
      108, 116, 34, 58, 55, 125]"
  by (simp add: frame_def length_reply7 decimal_19 toString_def utf8_decode_Cons utf8_decode_Nil)
    (simp add: reply7_def utf8_decode_Cons utf8_decode_Nil)

lemma toString_two_frames:
  "toString (frame replyE @ frame reply7) =
     [67, 111, 110, 116, 101, 110, 116, 45, 76, 101, 110, 103, 116, 104, 58, 32, 50,
      50, 13, 10, 13, 10, 123, 34, 105, 100, 34, 58, 50, 44, 34, 114, 101, 115, 117,
      108, 116, 34, 58, 34, 233, 34, 125, 67, 111, 110, 116, 101, 110, 116, 45, 76,
      101, 110, 103, 116, 104, 58, 32, 49, 57, 13, 10, 13, 10, 123, 34, 105, 100,
      34, 58, 51, 44, 34, 114, 101, 115, 117, 108, 116, 34, 58, 55, 125]"
  by (simp add: frame_def length_replyE length_reply7 decimal_22 decimal_19 toString_def
      utf8_decode_Cons utf8_decode_Nil)
    (simp add: replyE_def reply7_def utf8_decode_Cons utf8_decode_Nil is_cont_def)

lemma regex_match_two_frames:
  "regex_match
     [67, 111, 110, 116, 101, 110, 116, 45, 76, 101, 110, 103, 116, 104, 58, 32, 50,
      50, 13, 10, 13, 10, 123, 34, 105, 100, 34, 58, 50, 44, 34, 114, 101, 115, 117,
      108, 116, 34, 58, 34, 233, 34, 125, 67, 111, 110, 116, 101, 110, 116, 45, 76,
      101, 110, 103, 116, 104, 58, 32, 49, 57, 13, 10, 13, 10, 123, 34, 105, 100,
      34, 58, 51, 44, 34, 114, 101, 115, 117, 108, 116, 34, 58, 55, 125] =
   Some (22, [50, 50])"
  by (simp add: match_here_def header_name_def crlf2_def is_digit_def)

lemma regex_match_beheaded:
  "regex_match
     [111, 110, 116, 101, 110, 116, 45, 76, 101, 110, 103, 116, 104, 58, 32, 49, 57,
      13, 10, 13, 10, 123, 34, 105, 100, 34, 58, 51, 44, 34, 114, 101, 115, 117,
      108, 116, 34, 58, 55, 125] = None"
  by (simp add: match_here_def header_name_def crlf2_def is_digit_def)

lemma parseInt_22: "parseInt [50, 50] = 22"
  by (simp add: parseInt_def)

lemma loop_two_frames:
  "handleData_loop (toString (frame replyE @ frame reply7)) =
     ([toString replyE @ [67]], drop 1 (toString (frame reply7)))"
  unfolding toString_two_frames
  apply (subst loop_cut [OF regex_match_two_frames])
   apply (simp add: parseInt_22)
  apply (simp add: parseInt_22 substring_def loop_none [OF regex_match_beheaded]
      toString_replyE toString_frame_reply7)
  done

lemma toString_replyE_head:
  "toString replyE_head =
     [67, 111, 110, 116, 101, 110, 116, 45, 76, 101, 110, 103, 116, 104, 58, 32, 50,
      50, 13, 10, 13, 10, 123, 34, 105, 100, 34, 58, 50, 44, 34, 114, 101, 115, 117,
      108, 116, 34, 58, 34, 65533]"
  by (simp add: replyE_head_def toString_def utf8_decode_Cons utf8_decode_Nil is_cont_def)

lemma toString_replyE_tail: "toString replyE_tail = [65533, 34, 125]"
  by (simp add: replyE_tail_def toString_def utf8_decode_Cons utf8_decode_Nil is_cont_def)

lemma regex_match_replyE_head:
  "regex_match
     [67, 111, 110, 116, 101, 110, 116, 45, 76, 101, 110, 103, 116, 104, 58, 32, 50,
      50, 13, 10, 13, 10, 123, 34, 105, 100, 34, 58, 50, 44, 34, 114, 101, 115, 117,
      108, 116, 34, 58, 34, 65533] =
   Some (22, [50, 50])"
  by (simp add: match_here_def header_name_def crlf2_def is_digit_def)

lemma regex_match_replyE_split:
  "regex_match
     [67, 111, 110, 116, 101, 110, 116, 45, 76, 101, 110, 103, 116, 104, 58, 32, 50,
      50, 13, 10, 13, 10, 123, 34, 105, 100, 34, 58, 50, 44, 34, 114, 101, 115, 117,
      108, 116, 34, 58, 34, 65533, 65533, 34, 125] =
   Some (22, [50, 50])"
  by (simp add: match_here_def header_name_def crlf2_def is_digit_def)

lemma regex_match_Nil: "regex_match [] = None"
  by simp

lemma loop_replyE_head:
  "handleData_loop (toString replyE_head) = ([], toString replyE_head)"
  unfolding toString_replyE_head
  by (rule loop_short [OF regex_match_replyE_head]) (simp add: parseInt_22)

lemma loop_replyE_split:
  "handleData_loop (toString replyE_head @ toString replyE_tail) =
     ([[123, 34, 105, 100, 34, 58, 50, 44, 34, 114, 101, 115, 117, 108, 116, 34, 58,
        34, 65533, 65533, 34, 125]],
      [])"
  unfolding toString_replyE_head toString_replyE_tail
  apply (simp del: regex_match.simps)
  apply (subst loop_cut [OF regex_match_replyE_split])
   apply (simp add: parseInt_22)
  apply (simp add: parseInt_22 substring_def loop_none [OF regex_match_Nil])
  done

text \<open>
  C2, on an input where it fails. The reply \<open>replyE\<close> is 22 bytes and 21 code units, and
  the header of its frame says 22, as the sender of this very client would write it
  (\<^verbatim>\<open>Buffer.byteLength\<close>). The framer decodes the chunk first and then cuts 22 code units:
  the one payload it emits is the reply followed by the first letter of the next header,
  and the second message, now beheaded, is never emitted. With requests 2 and 3 in
  flight, the chunk that carries both replies settles neither. When the two bytes of the
  letter arrive in two chunks, each chunk is decoded on its own and the payload emitted
  has two replacement characters in place of the letter.
\<close>

theorem framer_counts_code_units:
  "frame replyE @ frame reply7 = concat (map frame [replyE, reply7]) \<and>
   length replyE = 22 \<and> length (toString replyE) = 21 \<and>
   feed ([], []) [frame replyE @ frame reply7] =
     ([toString replyE @ [67]], drop 1 (toString (frame reply7))) \<and>
   handleData posix (frame replyE @ frame reply7) twoPending =
     twoPending\<lparr>messageBuffer := drop 1 (toString (frame reply7))\<rparr> \<and>
   frame replyE = replyE_head @ replyE_tail \<and>
   feed ([], []) [replyE_head, replyE_tail] =
     ([[123, 34, 105, 100, 34, 58, 50, 44, 34, 114, 101, 115, 117, 108, 116, 34, 58,
        34, 65533, 65533, 34, 125]],
      [])"
proof -
  have a: "frame replyE @ frame reply7 = concat (map frame [replyE, reply7])" by simp
  have b: "length (toString replyE) = 21" by (simp add: toString_replyE)
  have c: "feed ([], []) [frame replyE @ frame reply7] =
     ([toString replyE @ [67]], drop 1 (toString (frame reply7)))"
    by (simp add: loop_two_frames)
  have p: "JSON_parse posix (toString replyE @ [67]) = None"
    by (simp add: posix_def toString_replyE toString_reply7)
      (simp add: initializeReplyText_def toString_def utf8_decode_Cons utf8_decode_Nil)
  have d: "handleData posix (frame replyE @ frame reply7) twoPending =
     twoPending\<lparr>messageBuffer := drop 1 (toString (frame reply7))\<rparr>"
    by (simp add: handleData_def twoPending_eq loop_two_frames dispatch_def p)
  have e: "frame replyE = replyE_head @ replyE_tail"
    by (simp add: frame_def length_replyE decimal_22)
      (simp add: replyE_def replyE_head_def replyE_tail_def)
  have f: "feed ([], []) [replyE_head, replyE_tail] =
     ([[123, 34, 105, 100, 34, 58, 50, 44, 34, 114, 101, 115, 117, 108, 116, 34, 58,
        34, 65533, 65533, 34, 125]],
      [])"
    by (simp add: loop_replyE_head loop_replyE_split)
  from a length_replyE b c d e f show ?thesis by simp
qed

section \<open>The framer on ASCII streams\<close>

text \<open>
  What the framer does get right. On bytes below 128 the decoder is the identity, so
  bytes and code units coincide, and the loop cuts a stream of frames at the right
  places however the stream is split into chunks.
\<close>

lemma utf8_decode_ascii: "(\<forall>b \<in> set bs. b < 128) \<Longrightarrow> utf8_decode bs = bs"
  by (induction bs) (simp_all add: utf8_decode_Nil utf8_decode_Cons)

lemma toString_ascii:
  "(\<forall>c \<in> set bs. (of_char c :: nat) < 128) \<Longrightarrow> toString bs = map of_char bs"
  by (simp add: toString_def utf8_decode_ascii)

lemma decimal_digits: "\<forall>c \<in> set (decimal n). is_digit (of_char c)"
proof (induction n rule: decimal.induct)
  case (1 n)
  show ?case
  proof (cases "n < 10")
    case True
    then show ?thesis by (subst decimal.simps) (simp add: is_digit_def)
  next
    case False
    have "n mod 10 < 10" by simp
    then have "is_digit (of_char (char_of (48 + n mod 10)))" by (simp add: is_digit_def)
    with False 1 show ?thesis by (subst decimal.simps) simp
  qed
qed

lemma decimal_nonempty: "decimal n \<noteq> []"
  by (subst decimal.simps) simp

lemma parseInt_snoc: "parseInt (ds @ [d]) = 10 * parseInt ds + (d - 48)"
  by (simp add: parseInt_def)

lemma parseInt_decimal: "parseInt (map of_char (decimal n)) = n"
proof (induction n rule: decimal.induct)
  case (1 n)
  show ?case
  proof (cases "n < 10")
    case True
    then show ?thesis by (subst decimal.simps) (simp add: parseInt_def)
  next
    case False
    have "n mod 10 < 10" by simp
    then have "(of_char (char_of (48 + n mod 10)) :: nat) = 48 + n mod 10" by simp
    with False 1 show ?thesis by (subst decimal.simps) (simp add: parseInt_snoc)
  qed
qed

lemma units_frame: "map of_char (frame bs) = frame_units (map of_char bs)"
  by (simp add: frame_def frame_units_def header_name_def crlf2_def)

lemma match_at_start:
  assumes "ds \<noteq> []" and "\<forall>d \<in> set ds. is_digit d"
  shows "regex_match (header_name @ ds @ crlf2 @ rest) =
           Some (length header_name + length ds + length crlf2, ds)"
proof -
  have tw: "takeWhile is_digit (ds @ crlf2 @ rest) = ds"
    using assms(2) by (simp add: takeWhile_append2 crlf2_def is_digit_def)
  have m: "match_here (header_name @ ds @ crlf2 @ rest) =
             Some (length header_name + length ds + length crlf2, ds)"
    using assms(1) by (simp add: match_here_def tw Let_def)
  obtain c cs where e: "header_name @ ds @ crlf2 @ rest = c # cs"
    by (cases "header_name @ ds @ crlf2 @ rest") (simp_all add: header_name_def)
  show ?thesis unfolding e using m [unfolded e] by simp
qed

lemma regex_match_frame:
  "regex_match (frame_units p @ rest) =
     Some (length header_name + length (decimal (length p)) + length crlf2,
           map of_char (decimal (length p)))"
  using match_at_start [of "map of_char (decimal (length p))" "p @ rest"]
  by (simp add: frame_units_def decimal_nonempty decimal_digits)

lemma loop_complete_frame:
  "handleData_loop (frame_units p @ rest) =
     (p # fst (handleData_loop rest), snd (handleData_loop rest))"
proof -
  let ?h = "length header_name + length (decimal (length p)) + length crlf2"
  have len: "length (frame_units p) = ?h + length p" by (simp add: frame_units_def)
  have d: "drop (?h + length p) (frame_units p @ rest) = rest" using len by simp
  have s: "substring ?h (?h + length p) (frame_units p @ rest) = p"
    by (simp add: substring_def frame_units_def)
  show ?thesis
    apply (subst loop_cut [OF regex_match_frame])
     apply (simp add: parseInt_decimal len)
    apply (simp only: parseInt_decimal d s)
    done
qed

lemma match_here_lf: "match_here s = Some m \<Longrightarrow> 2 \<le> count_list s 10"
proof -
  assume a: "match_here s = Some m"
  then obtain zs where s: "s = header_name @ zs"
    by (auto simp: match_here_def prefix_def split: if_splits)
  let ?ds = "takeWhile is_digit zs"
  from a s obtain zs' where z: "drop (length ?ds) zs = crlf2 @ zs'"
    by (auto simp: match_here_def Let_def prefix_def split: if_splits)
  have "zs = take (length ?ds) zs @ crlf2 @ zs'"
    using z append_take_drop_id [of "length ?ds" zs] by simp
  then have "count_list zs 10 = count_list (take (length ?ds) zs) 10 + count_list crlf2 10 + count_list zs' 10"
    by (metis add.assoc count_list_append)
  then have "2 \<le> count_list zs 10" by (simp add: crlf2_def)
  with s show ?thesis by simp
qed

lemma regex_match_lf: "regex_match s = Some m \<Longrightarrow> 2 \<le> count_list s 10"
proof (induction s)
  case Nil
  then show ?case by simp
next
  case (Cons c cs)
  show ?case
  proof (cases "match_here (c # cs)")
    case None
    with Cons have "2 \<le> count_list cs 10" by simp
    then show ?thesis by simp
  next
    case (Some a)
    then show ?thesis using match_here_lf by blast
  qed
qed

lemma count_list_prefix: "prefix xs ys \<Longrightarrow> count_list xs a \<le> count_list ys a"
  by (auto simp: prefix_def)

lemma digits_no_lf: "\<forall>d \<in> set ds. is_digit d \<Longrightarrow> count_list ds 10 = 0"
  by (induction ds) (auto simp: is_digit_def)

lemma header_strict_prefix_no_match:
  assumes "\<forall>d \<in> set ds. is_digit d" and "strict_prefix t (header_name @ ds @ crlf2)"
  shows "regex_match t = None"
proof (rule ccontr)
  assume "regex_match t \<noteq> None"
  then obtain m where "regex_match t = Some m" by auto
  then have two: "2 \<le> count_list t 10" by (rule regex_match_lf)
  have e: "header_name @ ds @ crlf2 = (header_name @ ds @ [13, 10, 13]) @ [10]"
    by (simp add: crlf2_def)
  from assms(2) have "prefix t ((header_name @ ds @ [13, 10, 13]) @ [10])"
    and "t \<noteq> (header_name @ ds @ [13, 10, 13]) @ [10]"
    unfolding e by (simp_all add: strict_prefix_def)
  then have "prefix t (header_name @ ds @ [13, 10, 13])"
    unfolding prefix_snoc by simp
  then have "count_list t 10 \<le> count_list (header_name @ ds @ [13, 10, 13]) 10"
    by (rule count_list_prefix)
  also have "\<dots> = 1" using digits_no_lf [OF assms(1)] by (simp add: header_name_def)
  finally show False using two by simp
qed

lemma loop_incomplete_frame:
  assumes "strict_prefix t (frame_units p)"
  shows "handleData_loop t = ([], t)"
proof -
  let ?ds = "map of_char (decimal (length p)) :: nat list"
  let ?H = "header_name @ ?ds @ crlf2"
  have dg: "\<forall>d \<in> set ?ds. is_digit d" using decimal_digits by simp
  have F: "frame_units p = ?H @ p" by (simp add: frame_units_def)
  from assms have pre: "prefix t (?H @ p)" and ne: "t \<noteq> ?H @ p"
    by (simp_all add: F strict_prefix_def)
  from pre have "prefix t ?H \<or> (\<exists>us. t = ?H @ us \<and> prefix us p)"
    by (simp only: prefix_append)
  then consider (hd) "prefix t ?H" "t \<noteq> ?H" | (body) us where "t = ?H @ us" "prefix us p"
  proof (elim disjE exE conjE)
    assume a: "prefix t ?H"
    assume r1: "\<lbrakk>prefix t ?H; t \<noteq> ?H\<rbrakk> \<Longrightarrow> thesis"
    assume r2: "\<And>us. \<lbrakk>t = ?H @ us; prefix us p\<rbrakk> \<Longrightarrow> thesis"
    show thesis
    proof (cases "t = ?H")
      case True
      then have "t = ?H @ []" by simp
      then show ?thesis by (rule r2) simp
    next
      case False
      with a show ?thesis by (rule r1)
    qed
  next
    fix us
    assume "t = ?H @ us" and "prefix us p"
    moreover assume "\<And>us. \<lbrakk>t = ?H @ us; prefix us p\<rbrakk> \<Longrightarrow> thesis"
    ultimately show thesis by blast
  qed
  then show ?thesis
  proof cases
    case hd
    then have "strict_prefix t ?H" by (simp add: strict_prefix_def)
    then have "regex_match t = None" by (rule header_strict_prefix_no_match [OF dg])
    then show ?thesis by (rule loop_none)
  next
    case body
    with ne have "us \<noteq> p" by auto
    with body(2) have lt: "length us < length p"
      by (auto simp: prefix_def)
    have m: "regex_match t =
        Some (length header_name + length (decimal (length p)) + length crlf2, ?ds)"
      using regex_match_frame [of p us] body(1) match_at_start [of ?ds us] dg
      by (simp add: decimal_nonempty)
    show ?thesis
      by (rule loop_short [OF m]) (simp add: parseInt_decimal body(1) lt)
  qed
qed

lemma loop_Nil: "handleData_loop [] = ([], [])"
  by (rule loop_none) simp

lemma loop_remainder_fixed:
  "handleData_loop (snd (handleData_loop buf)) = ([], snd (handleData_loop buf))"
proof (induction buf rule: handleData_loop.induct)
  case (1 buf)
  show ?case
  proof (cases "regex_match buf")
    case None
    then show ?thesis by (simp add: loop_none)
  next
    case (Some m)
    obtain h ds where m: "m = (h, ds)" by (cases m)
    show ?thesis
    proof (cases "length buf < h + parseInt ds")
      case True
      with Some m show ?thesis by (simp add: loop_short)
    next
      case False
      from Some m False
      have "handleData_loop (snd (handleData_loop (substring_from (h + parseInt ds) buf))) =
            ([], snd (handleData_loop (substring_from (h + parseInt ds) buf)))"
        by (intro "1.IH") auto
      with Some m False show ?thesis
        by (simp add: loop_cut substring_from_def)
    qed
  qed
qed

lemma loop_frames: "handleData_loop (concat (map frame_units qs)) = (qs, [])"
  by (induction qs) (simp_all add: loop_Nil loop_complete_frame)

lemma loop_stream_prefix:
  "x @ y = concat (map frame_units ps) \<Longrightarrow>
   \<exists>j r. handleData_loop x = (take j ps, r) \<and> r @ y = concat (map frame_units (drop j ps))"
proof (induction ps arbitrary: x)
  case Nil
  then show ?case by (simp add: loop_Nil)
next
  case (Cons p ps)
  let ?rest = "concat (map frame_units ps)"
  from Cons.prems have "x @ y = frame_units p @ ?rest" by simp
  then obtain us where
    "(x = frame_units p @ us \<and> us @ y = ?rest) \<or> (x @ us = frame_units p \<and> y = us @ ?rest)"
    unfolding append_eq_append_conv2 by blast
  then consider (whole) us' where "x = frame_units p @ us'" "us' @ y = ?rest"
    | (part) "strict_prefix x (frame_units p)"
  proof (elim disjE conjE)
    assume "x = frame_units p @ us" and "us @ y = ?rest"
    moreover assume "\<And>us'. \<lbrakk>x = frame_units p @ us'; us' @ y = ?rest\<rbrakk> \<Longrightarrow> thesis"
    ultimately show thesis by blast
  next
    assume a: "x @ us = frame_units p" and b: "y = us @ ?rest"
    assume r1: "\<And>us'. \<lbrakk>x = frame_units p @ us'; us' @ y = ?rest\<rbrakk> \<Longrightarrow> thesis"
    assume r2: "strict_prefix x (frame_units p) \<Longrightarrow> thesis"
    show thesis
    proof (cases "us = []")
      case True
      with a b have "x = frame_units p @ []" and "[] @ y = ?rest" by simp_all
      then show ?thesis by (rule r1)
    next
      case False
      from a have "prefix x (frame_units p)" by (metis prefixI)
      moreover from a False have "x \<noteq> frame_units p" by auto
      ultimately have "strict_prefix x (frame_units p)" by (simp add: strict_prefix_def)
      then show ?thesis by (rule r2)
    qed
  qed
  then show ?case
  proof cases
    case whole
    from Cons.IH [OF whole(2)] obtain j r where
      l: "handleData_loop us' = (take j ps, r)" and e: "r @ y = concat (map frame_units (drop j ps))"
      by blast
    have "handleData_loop x = (take (Suc j) (p # ps), r)"
      by (simp add: whole(1) loop_complete_frame l)
    moreover have "r @ y = concat (map frame_units (drop (Suc j) (p # ps)))" using e by simp
    ultimately show ?thesis by blast
  next
    case part
    then have "handleData_loop x = (take 0 (p # ps), x)" by (simp add: loop_incomplete_frame)
    moreover have "x @ y = concat (map frame_units (drop 0 (p # ps)))" using Cons.prems by simp
    ultimately show ?thesis by blast
  qed
qed

lemma feed_stream:
  assumes "\<forall>c \<in> set chunks. toString c = map of_char c"
    and "handleData_loop buf = ([], buf)"
    and "buf @ map of_char (concat chunks) = concat (map frame_units qs)"
  shows "feed (out, buf) chunks = (out @ qs, [])"
  using assms
proof (induction chunks arbitrary: out buf qs)
  case Nil
  then have "buf = concat (map frame_units qs)" by simp
  with Nil.prems(2) loop_frames [of qs] have "qs = []" and "buf = []" by simp_all
  then show ?case by simp
next
  case (Cons c chunks)
  from Cons.prems(1) have tc: "toString c = map of_char c" by simp
  from Cons.prems(3)
  have "(buf @ map of_char c) @ map of_char (concat chunks) = concat (map frame_units qs)"
    by simp
  from loop_stream_prefix [OF this] obtain j r where
    l: "handleData_loop (buf @ map of_char c) = (take j qs, r)"
    and e: "r @ map of_char (concat chunks) = concat (map frame_units (drop j qs))"
    by blast
  from l have fx: "handleData_loop r = ([], r)"
    using loop_remainder_fixed [of "buf @ map of_char c"] by simp
  from Cons.prems(1) have ch: "\<forall>c \<in> set chunks. toString c = map of_char c" by simp
  have "feed (out @ take j qs, r) chunks = ((out @ take j qs) @ drop j qs, [])"
    by (rule Cons.IH [OF ch fx e])
  then show ?case by (simp add: tc l)
qed

text \<open>
  For chunks of ASCII bytes whose concatenation is a sequence of frames, in any split
  (one byte per chunk included), the framer emits exactly the payloads of the frames, in
  order, and leaves an empty buffer.
\<close>

theorem framer_ascii_any_split:
  assumes "\<forall>c \<in> set (concat chunks). (of_char c :: nat) < 128"
    and "concat chunks = concat (map frame payloads)"
  shows "feed ([], []) chunks = (map toString payloads, [])"
proof -
  have a: "\<forall>c \<in> set chunks. toString c = map of_char c"
    using assms(1) by (auto intro!: toString_ascii)
  have "\<forall>p \<in> set payloads. \<forall>c \<in> set p. (of_char c :: nat) < 128"
  proof (intro ballI)
    fix p c assume "p \<in> set payloads" and "c \<in> set p"
    then have "c \<in> set (concat (map frame payloads))" by (auto simp: frame_def)
    with assms(2) have "c \<in> set (concat chunks)" by simp
    with assms(1) show "(of_char c :: nat) < 128" by blast
  qed
  then have b: "map toString payloads = map (map of_char) payloads"
    by (auto intro!: toString_ascii)
  have "map of_char (concat (map frame payloads)) =
        concat (map frame_units (map (map of_char) payloads))"
    by (induction payloads) (simp_all add: units_frame)
  with assms(2) have c: "[] @ map of_char (concat chunks) =
        concat (map frame_units (map (map of_char) payloads))"
    by simp
  from feed_stream [OF a loop_Nil c, of "[]"] b show ?thesis by simp
qed

lemma framer_ascii_any_split_example:
  "feed ([], []) (map (\<lambda>b. [b]) (frame ''{}'' @ frame ''7'')) = ([toString ''{}'', toString ''7''], [])"
proof -
  have d: "decimal (Suc (Suc 0)) = ''2''" by code_simp
  have a: "\<forall>c \<in> set (concat (map (\<lambda>b. [b]) (frame ''{}'' @ frame ''7''))). (of_char c :: nat) < 128"
    by (simp add: frame_def d decimal_1)
  have b: "concat (map (\<lambda>b. [b]) (frame ''{}'' @ frame ''7'')) = concat (map frame [''{}'', ''7''])"
    by (simp add: frame_def d decimal_1)
  from framer_ascii_any_split [OF a b] show ?thesis by simp
qed

section \<open>A complete session\<close>

text \<open>
  One frame of ASCII text in one chunk, on an empty buffer, is dispatched as one message.
\<close>

lemma handleData_one_ascii_frame:
  assumes "\<forall>c \<in> set text. (of_char c :: nat) < 128" and "messageBuffer st = []"
  shows "handleData pf (frame text) st = dispatch pf st (toString text)"
proof -
  have "\<forall>c \<in> set (frame text). (of_char c :: nat) < 128"
    using assms(1) decimal_digits [of "length text"]
    by (auto simp: frame_def is_digit_def)
  then have "toString (frame text) = frame_units (map of_char text) @ []"
    by (simp add: toString_ascii units_frame)
  then have "handleData_loop (messageBuffer st @ toString (frame text)) = ([map of_char text], [])"
    using loop_complete_frame [of "map of_char text" "[]"] by (simp add: assms(2) loop_Nil)
  moreover have "st\<lparr>messageBuffer := []\<rparr> = st" using assms(2) by simp
  ultimately show ?thesis by (simp add: handleData_def toString_ascii [OF assms(1)])
qed

text \<open>
  The handshake, driven by the bytes of the server's reply: the reply arrives as one frame, the
  \<open>initialize\<close> request settles, and \<open>_initialize\<close> resumes into the ready client.
\<close>

lemma handshake_by_data:
  "run posix [Data (frame initializeReplyText), InitializeResumes 1] startedClient = readyClient"
proof -
  have a: "\<forall>c \<in> set initializeReplyText. (of_char c :: nat) < 128"
    by (simp add: initializeReplyText_def)
  have b: "messageBuffer startedClient = []" by (simp add: startedClient_eq)
  have "handleData posix (frame initializeReplyText) startedClient =
        fst (handleMessage posix initializeReply startedClient)"
    by (simp add: handleData_one_ascii_frame [OF a b] dispatch_def posix_def)
  then show ?thesis by (simp add: run_def readyClient_def)
qed

text \<open>
  The steps of a session on \<^verbatim>\<open>a.ts\<close>, from the ready client on: a call of
  \<^verbatim>\<open>ensureDocumentOpen\<close> parks at a read of its own while the document is not recorded and
  returns at once when it is; a read that settles with the content of the file lets its
  call write the open notification and record version 1; a change is pushed with the
  recorded version plus one.
\<close>

lemma languageId_a_ts: "languageIdFor typescriptServer ''/app/project/a.ts'' = ''javascript''"
  by (simp add: typescriptServer_def languageIdFor_def suffix_def)

lemma sessionClient_ready: "readyClient = sessionClient 1 Map.empty Map.empty []"
  by (simp add: sessionClient_def readyClient_eq)

lemma call_parks:
  "docs ''/app/project/a.ts'' = None \<Longrightarrow>
   ensureDocumentOpen posix ''a.ts'' (sessionClient rc rd docs sent) =
     (AwaitingRead rc,
      sessionClient (Suc rc) (rd(rc \<mapsto> (''/app/project/a.ts'', ''javascript''))) docs sent)"
  by (simp add: sessionClient_def readyClient_eq ensureDocumentOpen_def
      ensureDocumentOpen_resume_def posix_def languageId_a_ts)

lemma call_returns:
  "docs ''/app/project/a.ts'' = Some v \<Longrightarrow>
   ensureDocumentOpen posix ''a.ts'' (sessionClient rc rd docs sent) =
     (Returned ''/app/project/a.ts'', sessionClient rc rd docs sent)"
  by (simp add: sessionClient_def readyClient_eq ensureDocumentOpen_def
      ensureDocumentOpen_resume_def posix_def languageId_a_ts)

lemma step_read:
  "rd k = Some (a, lang) \<Longrightarrow>
   step pf (sessionClient rc rd docs sent) (ReadSettles k (Some text)) =
     sessionClient rc (rd(k := None)) (docs(a \<mapsto> 1))
       (sent @ [Notification ''textDocument/didOpen'' (DidOpenParams a lang 1 text)])"
  by (simp add: sessionClient_def readyClient_eq ensureDocumentOpen_read_def
      sendNotification_def)

lemma step_push:
  "docs a = Some v \<Longrightarrow> 0 < v \<Longrightarrow>
   step pf (sessionClient rc rd docs sent) (PushChange a text) =
     sessionClient rc rd (docs(a \<mapsto> Suc v))
       (sent @ [Notification ''textDocument/didChange'' (DidChangeParams a (Suc v) text)])"
  by (simp add: sessionClient_def readyClient_eq notifyChanged_def sendNotification_def)

lemma run_Cons: "run pf (ev # evs) st = run pf evs (step pf st ev)"
  by (simp add: run_def)

lemma run_Nil: "run pf [] st = st"
  by (simp add: run_def)

lemma run_handshake:
  "run posix (Data (frame initializeReplyText) # InitializeResumes 1 # evs) startedClient =
     run posix evs (sessionClient 1 Map.empty Map.empty [])"
  using handshake_by_data by (simp add: run_def sessionClient_ready)

lemma step_call: "step pf st (EnsureOpen rel) = snd (ensureDocumentOpen pf rel st)"
  by simp

lemmas session_steps = run_Cons run_Nil step_call call_parks call_returns step_read step_push

section \<open>Opening a document twice\<close>

text \<open>
  A call of \<^verbatim>\<open>ensureDocumentOpen\<close> for a path that is recorded in \<^verbatim>\<open>openDocuments\<close> returns the
  path and leaves the client as it is. So a second call that begins after the first has
  recorded the document sends nothing.
\<close>

lemma ensureDocumentOpen_already_open:
  assumes "isInitialized st" and "getAbsolutePath pf rel = Some absolutePath"
    and "openDocuments st absolutePath = Some v"
  shows "ensureDocumentOpen pf rel st = (Returned absolutePath, st)"
  using assms by (simp add: ensureDocumentOpen_def ensureDocumentOpen_resume_def)

lemma ensureDocumentOpen_one_after_the_other:
  "run posix [EnsureOpen ''a.ts'', ReadSettles 1 (Some ''let x = 1''), EnsureOpen ''a.ts'']
     readyClient =
   sessionClient 2 Map.empty [''/app/project/a.ts'' \<mapsto> 1]
     [Notification ''textDocument/didOpen''
        (DidOpenParams ''/app/project/a.ts'' ''javascript'' 1 ''let x = 1'')]"
  unfolding sessionClient_ready
  by (simp add: session_steps eval_nat_numeral del: step.simps)

text \<open>
  C8, on an input where it fails. \<^verbatim>\<open>ensureDocumentOpen\<close> tests \<^verbatim>\<open>openDocuments\<close>, then awaits the
  read of the file, and only after that writes the open notification and records the
  version. On the ready client (the client of the configured server once the handshake
  is done) two calls for \<^verbatim>\<open>a.ts\<close> begin one right after the other (as
  when \<^verbatim>\<open>getCompletions\<close> and \<^verbatim>\<open>findDefinition\<close> are started together for one file): the
  second begins while the first is parked at its read, finds the path not recorded, and
  parks at a read of its own. When both reads have settled, two open notifications have
  been written for the path; the recorded version is 1.
\<close>

theorem ensureDocumentOpen_overlapping_calls:
  "run posix [Data (frame initializeReplyText), InitializeResumes 1] startedClient = readyClient \<and>
   fst (ensureDocumentOpen posix ''a.ts'' readyClient) = AwaitingRead 1 \<and>
   fst (ensureDocumentOpen posix ''a.ts'' (snd (ensureDocumentOpen posix ''a.ts'' readyClient))) =
     AwaitingRead 2 \<and>
   stdin (run posix
            [EnsureOpen ''a.ts'', EnsureOpen ''a.ts'',
             ReadSettles 1 (Some ''let x = 1''), ReadSettles 2 (Some ''let x = 1'')]
            readyClient) =
     stdin readyClient @
       [Notification ''textDocument/didOpen''
          (DidOpenParams ''/app/project/a.ts'' ''javascript'' 1 ''let x = 1''),
        Notification ''textDocument/didOpen''
          (DidOpenParams ''/app/project/a.ts'' ''javascript'' 1 ''let x = 1'')] \<and>
   openDocuments (run posix
            [EnsureOpen ''a.ts'', EnsureOpen ''a.ts'',
             ReadSettles 1 (Some ''let x = 1''), ReadSettles 2 (Some ''let x = 1'')]
            readyClient) ''/app/project/a.ts'' = Some 1"
proof -
  have 1: "fst (ensureDocumentOpen posix ''a.ts'' readyClient) = AwaitingRead 1"
    by (simp add: sessionClient_ready call_parks)
  have 2: "fst (ensureDocumentOpen posix ''a.ts'' (snd (ensureDocumentOpen posix ''a.ts'' readyClient))) =
     AwaitingRead 2"
    by (simp add: sessionClient_ready call_parks eval_nat_numeral)
  have 3: "run posix
            [EnsureOpen ''a.ts'', EnsureOpen ''a.ts'',
             ReadSettles 1 (Some ''let x = 1''), ReadSettles 2 (Some ''let x = 1'')]
            readyClient =
      sessionClient 3
        ((([1 \<mapsto> (''/app/project/a.ts'', ''javascript''),
            2 \<mapsto> (''/app/project/a.ts'', ''javascript'')])(1 := None))(2 := None))
        [''/app/project/a.ts'' \<mapsto> 1]
        [Notification ''textDocument/didOpen''
          (DidOpenParams ''/app/project/a.ts'' ''javascript'' 1 ''let x = 1''),
         Notification ''textDocument/didOpen''
          (DidOpenParams ''/app/project/a.ts'' ''javascript'' 1 ''let x = 1'')]"
    unfolding sessionClient_ready
    by (simp add: session_steps eval_nat_numeral del: step.simps)
  show ?thesis unfolding 3 using 1 2 handshake_by_data by (simp add: sessionClient_def)
qed

section \<open>The versions sent for a document\<close>

lemma versions_sent_append:
  "versions_sent p (ws @ vs) = versions_sent p ws @ versions_sent p vs"
  by (induction p ws rule: versions_sent.induct) auto

lemma expected_versions_0: "expected_versions 0 = []"
  by (simp add: expected_versions_def)

lemma expected_versions_1: "expected_versions (Suc 0) = [(''textDocument/didOpen'', 1)]"
  by (simp add: expected_versions_def)

lemma expected_versions_Suc:
  "0 < n \<Longrightarrow> expected_versions (Suc n) = expected_versions n @ [(''textDocument/didChange'', Suc n)]"
  by (simp add: expected_versions_def)

lemma versions_of_session:
  "versions_sent p (stdin (sessionClient rc rd docs sent)) = versions_sent p sent"
  by (simp add: sessionClient_def readyClient_eq versions_sent_append)

text \<open>
  Every event keeps the invariant of the versions, provided that a read, when the event
  is one, settles in turn.
\<close>

lemma sendRequest_inv: "docs_inv st \<Longrightarrow> docs_inv (snd (sendRequest method ps timeoutMs st))"
  by (simp add: docs_inv_def sendRequest_def Let_def versions_sent_append)

lemma onExit_inv: "docs_inv st \<Longrightarrow> docs_inv (onExit st)"
  by (simp add: docs_inv_def onExit_def)

lemma onError_inv: "docs_inv st \<Longrightarrow> docs_inv (onError st)"
  by (simp add: docs_inv_def onError_def)

lemma initialize_resume_inv: "docs_inv st \<Longrightarrow> docs_inv (initialize_resume i st)"
  by (auto simp: docs_inv_def initialize_resume_def sendNotification_def versions_sent_append
         split: option.splits outcome.splits)

lemma close_finally_inv: "docs_inv st \<Longrightarrow> docs_inv (snd (close_finally st))"
  by (auto simp: docs_inv_def close_finally_def sendNotification_def versions_sent_append Let_def)

lemma close_start_inv: "docs_inv st \<Longrightarrow> docs_inv (snd (close_start st))"
  using sendRequest_inv [of st "''shutdown''" NullParams 2000]
  by (auto simp: close_start_def split: prod.splits sum.splits intro: close_finally_inv)

lemma close_resume_inv: "docs_inv st \<Longrightarrow> docs_inv (snd (close_resume i st))"
  by (simp add: close_resume_def close_finally_inv)

lemma ensureDocumentOpen_resume_inv:
  "docs_inv st \<Longrightarrow> docs_inv (snd (ensureDocumentOpen_resume pf rel st))"
  by (auto simp: docs_inv_def ensureDocumentOpen_resume_def Let_def split: option.splits)

lemma ensureDocumentOpen_inv:
  "docs_inv st \<Longrightarrow> docs_inv (snd (ensureDocumentOpen pf rel st))"
  by (simp add: ensureDocumentOpen_def ensureDocumentOpen_resume_inv split: promise.splits)

lemma readSettles_inv:
  assumes "docs_inv st" and "in_turn st (ReadSettles k fileText)"
  shows "docs_inv (step pf st (ReadSettles k fileText))"
proof (cases "reads st k")
  case None
  with assms show ?thesis by simp
next
  case (Some r)
  obtain a lang where r: "r = (a, lang)" by (cases r)
  let ?st = "st\<lparr>reads := (reads st)(k := None)\<rparr>"
  show ?thesis
  proof (cases fileText)
    case None
    have "docs_inv ?st" using assms(1) Some by (auto simp: docs_inv_def)
    with Some r None show ?thesis by (simp add: ensureDocumentOpen_read_def)
  next
    case content: (Some content)
    from assms(2) Some r content have cl: "openDocuments st a = None" by simp
    show ?thesis
    proof (cases "process st")
      case False
      with assms(1) Some r content show ?thesis
        by (simp add: ensureDocumentOpen_read_def Let_def sendNotification_def docs_inv_def)
    next
      case True
      from assms(1) True Some have init: "isInitialized st" by (auto simp: docs_inv_def)
      from assms(1) True init cl have e: "versions_sent a (stdin st) = []"
        by (auto simp: docs_inv_def split: if_splits)
      from assms(1) True init Some r content cl e show ?thesis
        by (simp add: ensureDocumentOpen_read_def Let_def sendNotification_def docs_inv_def
            versions_sent_append expected_versions_1)
    qed
  qed
qed

lemma notifyChanged_inv:
  assumes "docs_inv st" and "openDocuments st a \<noteq> None"
  shows "docs_inv (notifyChanged a newContent st)"
proof (cases "process st")
  case False
  with assms show ?thesis
    by (simp add: notifyChanged_def Let_def sendNotification_def docs_inv_def)
next
  case True
  show ?thesis
  proof (cases "isInitialized st")
    case False
    with assms True show ?thesis by (simp add: docs_inv_def)
  next
    case init: True
    let ?vs = "versions_sent a (stdin st)"
    from assms True init have ne: "?vs \<noteq> []" and v: "openDocuments st a = Some (length ?vs)"
      by (auto simp: docs_inv_def split: if_splits)
    from ne have pos: "0 < length ?vs" by simp
    from assms have ex: "?vs = expected_versions (length ?vs)" by (simp add: docs_inv_def)
    have "expected_versions (Suc (length ?vs)) = ?vs @ [(''textDocument/didChange'', Suc (length ?vs))]"
      using expected_versions_Suc [OF pos] ex by simp
    with assms True init ne v pos show ?thesis
      by (simp add: notifyChanged_def Let_def sendNotification_def docs_inv_def
          versions_sent_append)
  qed
qed

lemma step_inv: "docs_inv st \<Longrightarrow> in_turn st ev \<Longrightarrow> docs_inv (step pf st ev)"
proof (cases ev)
  case (Data chunk)
  assume "docs_inv st"
  then show ?thesis using handleData_same [of st pf chunk] Data by (auto intro: same_docs_inv)
next
  case (TimerFires i)
  assume "docs_inv st"
  then show ?thesis using onTimeout_same [of st i] TimerFires by (auto intro: same_docs_inv)
next
  case (ReadSettles k fileText)
  assume "docs_inv st" and "in_turn st ev"
  then show ?thesis unfolding ReadSettles by (rule readSettles_inv)
qed (simp_all add: onExit_inv onError_inv initialize_resume_inv sendRequest_inv
      ensureDocumentOpen_inv notifyChanged_inv close_start_inv close_resume_inv)

lemma run_inv: "docs_inv st \<Longrightarrow> orderly pf st evs \<Longrightarrow> docs_inv (run pf evs st)"
  unfolding run_def by (induction evs arbitrary: st) (simp_all add: step_inv)

lemma newLspProcess_inv: "docs_inv (newLspProcess cfg)"
  by (simp add: docs_inv_def newLspProcess_def initialize_start_def sendRequest_def Let_def
      expected_versions_0)

text \<open>
  When every read settles in turn, the versions are as claimed: from the construction of
  the client on, over every orderly sequence of events, what is written for a path is an
  open with version 1 followed by changes with the versions 2, 3 and so on.
\<close>

lemma versions_sent_orderly:
  assumes "orderly pf (newLspProcess cfg) evs"
  shows "\<exists>n. versions_sent p (stdin (run pf evs (newLspProcess cfg))) = expected_versions n"
  using run_inv [OF newLspProcess_inv assms] unfolding docs_inv_def by blast

lemma versions_sent_example:
  "versions_sent ''/app/project/a.ts''
     (stdin (run posix
        [Data (frame initializeReplyText), InitializeResumes 1,
         EnsureOpen ''a.ts'', ReadSettles 1 (Some ''let x = 1''),
         PushChange ''/app/project/a.ts'' ''let x = 2'',
         EnsureOpen ''a.ts'',
         PushChange ''/app/project/a.ts'' ''let x = 3''] startedClient)) =
     [(''textDocument/didOpen'', 1), (''textDocument/didChange'', 2),
      (''textDocument/didChange'', 3)]"
  unfolding run_handshake
  by (simp add: session_steps versions_of_session eval_nat_numeral del: step.simps)

text \<open>
  C9, on inputs where it fails. From the construction of the client and through the
  handshake, two calls of \<^verbatim>\<open>ensureDocumentOpen\<close> for \<^verbatim>\<open>a.ts\<close> overlap, and each writes an open
  notification with version 1. With the change pushed after both reads have settled,
  the versions written for the path are 1, 1, 2. With the change pushed between the two
  reads, the second open comes after the change and resets the recorded version to 1, so
  the next change is sent with version 2 again: the versions written are 1, 2, 1, 2.
\<close>

theorem versions_sent_overlapping_opens:
  "versions_sent ''/app/project/a.ts''
     (stdin (run posix
        [Data (frame initializeReplyText), InitializeResumes 1,
         EnsureOpen ''a.ts'', EnsureOpen ''a.ts'',
         ReadSettles 1 (Some ''let x = 1''), ReadSettles 2 (Some ''let x = 1''),
         PushChange ''/app/project/a.ts'' ''let x = 2''] startedClient)) =
     [(''textDocument/didOpen'', 1), (''textDocument/didOpen'', 1),
      (''textDocument/didChange'', 2)] \<and>
   versions_sent ''/app/project/a.ts''
     (stdin (run posix
        [Data (frame initializeReplyText), InitializeResumes 1,
         EnsureOpen ''a.ts'', EnsureOpen ''a.ts'',
         ReadSettles 1 (Some ''let x = 1''),
         PushChange ''/app/project/a.ts'' ''let x = 2'',
         ReadSettles 2 (Some ''let x = 2''),
         PushChange ''/app/project/a.ts'' ''let x = 3''] startedClient)) =
     [(''textDocument/didOpen'', 1), (''textDocument/didChange'', 2),
      (''textDocument/didOpen'', 1), (''textDocument/didChange'', 2)]"
  unfolding run_handshake
  by (simp add: session_steps versions_of_session eval_nat_numeral del: step.simps)

end
